theory Spec2Isabelle
  imports Complex_Main "HOL-Library.AList"
begin

section \<open>Autopart (algorithms/autopart.py): a shallow embedding\<close>

text \<open>
  The class \<^verbatim>\<open>Autopart\<close> partitions the nodes of a graph into groups so that the
  blocks of the adjacency matrix compress well. This theory embeds the class method by
  method, under these conventions.

  \<^item> Python floats are read as real numbers: \<^verbatim>\<open>math.log(x, 2)\<close> is \<open>log 2 x\<close> and raises
    \<^verbatim>\<open>ValueError\<close> (math domain error) for \<open>x \<le> 0\<close>; \<^verbatim>\<open>math.ceil\<close> is the ceiling. Rounding
    is not modelled.
  \<^item> Every exception of the source is a value of \<open>error\<close>. A method that only reads the
    object returns \<open>error + 'a\<close>; a method that mutates the object returns an \<open>outcome\<close>,
    which carries the object as it stands when the method returns or raises.
  \<^item> A \<^verbatim>\<open>dict\<close> is an association list in insertion order (item assignment is
    \<open>AList.update\<close>); a \<^verbatim>\<open>set\<close> whose elements the code iterates over is the list of its
    elements without repetition; the sets \<^verbatim>\<open>used\<close> and the dict \<^verbatim>\<open>temp\<close> of the
    rearrangement are never iterated and are a HOL set and a HOL map.
  \<^item> The sparse matrix is the list of its rows; it is square (\<open>n\<close> rows of length \<open>n\<close>,
    the shape is fixed when the matrix is built), an index beyond \<open>n\<close> raises
    \<^verbatim>\<open>IndexError\<close> and a slice is cut at the border, as scipy does.
  \<^item> A method named \<^verbatim>\<open>_m\<close> in the source is \<open>u_m\<close> here, a field \<^verbatim>\<open>self.f\<close> is
    \<open>self_f\<close>. Group indices and nodes are natural numbers.
\<close>

subsection \<open>Exceptions\<close>

datatype error = ValueError | AssertionError | KeyError | IndexError | ZeroDivisionError

definition ebind :: "error + 'a \<Rightarrow> ('a \<Rightarrow> error + 'b) \<Rightarrow> error + 'b" where
  "ebind m f = (case m of Inl e \<Rightarrow> Inl e | Inr x \<Rightarrow> f x)"

text \<open>A comprehension \<^verbatim>\<open>[f(x) for x in xs]\<close> whose body may raise.\<close>

fun emap :: "('a \<Rightarrow> error + 'b) \<Rightarrow> 'a list \<Rightarrow> error + 'b list" where
  "emap f [] = Inr []"
| "emap f (x # xs) = ebind (f x) (\<lambda>y. ebind (emap f xs) (\<lambda>ys. Inr (y # ys)))"

text \<open>A \<^verbatim>\<open>for\<close> loop that updates local variables and may raise.\<close>

fun efoldl :: "('b \<Rightarrow> 'a \<Rightarrow> error + 'b) \<Rightarrow> 'b \<Rightarrow> 'a list \<Rightarrow> error + 'b" where
  "efoldl f acc [] = Inr acc"
| "efoldl f acc (x # xs) = ebind (f acc x) (\<lambda>acc'. efoldl f acc' xs)"

subsection \<open>Python containers\<close>

type_synonym node = nat
type_synonym ('k, 'v) dict = "('k \<times> 'v) list"
type_synonym matrix = "real list list"

definition getitem :: "('k, 'v) dict \<Rightarrow> 'k \<Rightarrow> error + 'v" where
  "getitem d key = (case map_of d key of None \<Rightarrow> Inl KeyError | Some v \<Rightarrow> Inr v)"

definition dict_of :: "('k \<times> 'v) list \<Rightarrow> ('k, 'v) dict" where
  "dict_of kvs = foldl (\<lambda>d (key, v). AList.update key v d) [] kvs"

definition index :: "'a list \<Rightarrow> nat \<Rightarrow> error + 'a" where
  "index xs i = (if i < length xs then Inr (xs ! i) else Inl IndexError)"

definition set_add :: "'a \<Rightarrow> 'a list \<Rightarrow> 'a list" where
  "set_add x xs = (if x \<in> set xs then xs else xs @ [x])"

definition set_remove :: "'a \<Rightarrow> 'a list \<Rightarrow> error + 'a list" where
  "set_remove x xs = (if x \<in> set xs then Inr (removeAll x xs) else Inl KeyError)"

text \<open>\<^verbatim>\<open>min(xs, key=f)\<close> and \<^verbatim>\<open>max(xs, key=f)\<close>: the first element with the least (greatest)
  key; \<^verbatim>\<open>ValueError\<close> on an empty sequence.\<close>

definition min_by :: "('a \<Rightarrow> error + real) \<Rightarrow> 'a list \<Rightarrow> error + 'a" where
  "min_by f xs = (case xs of [] \<Rightarrow> Inl ValueError
     | x # rest \<Rightarrow> ebind (f x) (\<lambda>fx.
         ebind (efoldl (\<lambda>(best, fbest) y. ebind (f y) (\<lambda>fy.
                   Inr (if fy < fbest then (y, fy) else (best, fbest)))) (x, fx) rest)
           (\<lambda>(best, fbest). Inr best)))"

definition max_by :: "('a \<Rightarrow> error + real) \<Rightarrow> 'a list \<Rightarrow> error + 'a" where
  "max_by f xs = (case xs of [] \<Rightarrow> Inl ValueError
     | x # rest \<Rightarrow> ebind (f x) (\<lambda>fx.
         ebind (efoldl (\<lambda>(best, fbest) y. ebind (f y) (\<lambda>fy.
                   Inr (if fy > fbest then (y, fy) else (best, fbest)))) (x, fx) rest)
           (\<lambda>(best, fbest). Inr best)))"

subsection \<open>Matrix access\<close>

definition get_row :: "matrix \<Rightarrow> nat \<Rightarrow> error + real list" where
  "get_row m r = (if r < length m then Inr (m ! r) else Inl IndexError)"

definition set_row :: "matrix \<Rightarrow> nat \<Rightarrow> real list \<Rightarrow> error + matrix" where
  "set_row m r row = (if r < length m then Inr (m[r := row]) else Inl IndexError)"

definition get_col :: "matrix \<Rightarrow> nat \<Rightarrow> error + real list" where
  "get_col m c = (if c < length m then Inr (map (\<lambda>row. row ! c) m) else Inl IndexError)"

definition set_col :: "matrix \<Rightarrow> nat \<Rightarrow> real list \<Rightarrow> error + matrix" where
  "set_col m c col =
     (if c < length m then Inr (map (\<lambda>(row, v). row[c := v]) (zip m col)) else Inl IndexError)"

text \<open>\<^verbatim>\<open>m[r, c_from:c_to].sum()\<close> and \<^verbatim>\<open>m[r_from:r_to, c].sum()\<close>.\<close>

definition row_slice_sum :: "matrix \<Rightarrow> nat \<Rightarrow> nat \<Rightarrow> nat \<Rightarrow> error + real" where
  "row_slice_sum m r c_from c_to =
     (if r < length m then Inr (sum_list (take (c_to - c_from) (drop c_from (m ! r))))
      else Inl IndexError)"

definition col_slice_sum :: "matrix \<Rightarrow> nat \<Rightarrow> nat \<Rightarrow> nat \<Rightarrow> error + real" where
  "col_slice_sum m r_from r_to c =
     (if c < length m
      then Inr (sum_list (map (\<lambda>row. row ! c) (take (r_to - r_from) (drop r_from m))))
      else Inl IndexError)"

subsection \<open>Module level: epsilon, log2, log_star\<close>

definition epsilon :: real where
  "epsilon = 1 / 10000"

definition log2 :: "real \<Rightarrow> error + real" where
  "log2 x = (if 0 < x then Inr (log 2 x) else Inl ValueError)"

text \<open>The loop of \<^verbatim>\<open>log_star\<close>; inside it \<open>val > epsilon > 0\<close>, so the logarithm is defined.\<close>

function log_star_loop :: "real \<Rightarrow> real \<Rightarrow> real" where
  "log_star_loop res val =
     (if val > epsilon then log_star_loop (res + val) (log 2 val) else res)"
  by pat_completeness auto

definition log_star :: "real \<Rightarrow> error + real" where
  "log_star x = ebind (log2 x) (\<lambda>val. Inr (log_star_loop 0 val))"

subsection \<open>The object\<close>

text \<open>
  The input graph is used through \<^verbatim>\<open>graph.nodes()\<close>, \<^verbatim>\<open>graph.order()\<close> and
  \<^verbatim>\<open>nx.adjacency_matrix(graph, graph.nodes())\<close> only. Besides the fields of the object,
  the state holds the two parts of the environment that the methods touch: the level of the
  root logger and the figures saved under \<^verbatim>\<open>/tmp\<close> (file name, matrix, group borders).
\<close>

record graph =
  graph_nodes :: "node list"
  graph_adj :: matrix

type_synonym figure = "(nat \<times> string \<times> nat) \<times> matrix \<times> nat list"

record state =
  self_graph :: graph
  self_adj_matrix :: matrix
  self_k :: nat
  self_map_g_n :: "(nat, node list) dict"
  self_map_n_g :: "(node, nat) dict"
  self_map_n_r :: "(node, nat) dict"
  self_step :: nat
  self_w :: "real list list"
  self_P :: "real list list"
  log_level :: int
  saved_figs :: "figure list"

datatype 'a outcome = Return 'a state | Raise error state

subsection \<open>Accessors\<close>

definition groups :: "state \<Rightarrow> nat list" where
  "groups s = [0..<self_k s]"

definition nodes :: "state \<Rightarrow> node list" where
  "nodes s = graph_nodes (self_graph s)"

definition group_size :: "state \<Rightarrow> nat \<Rightarrow> error + nat" where
  "group_size s group_i = ebind (getitem (self_map_g_n s) group_i) (\<lambda>members. Inr (length members))"

definition group_sizes :: "state \<Rightarrow> error + nat list" where
  "group_sizes s =
     emap (\<lambda>g. ebind (getitem (self_map_g_n s) g) (\<lambda>members. Inr (length members)))
       (map fst (self_map_g_n s))"

definition group_start_idx :: "state \<Rightarrow> nat \<Rightarrow> error + nat" where
  "group_start_idx s group_i = ebind (emap (group_size s) [0..<group_i]) (\<lambda>xs. Inr (sum_list xs))"

definition block_size :: "state \<Rightarrow> nat \<Rightarrow> nat \<Rightarrow> error + nat" where
  "block_size s group_i group_j =
     ebind (group_size s group_i) (\<lambda>a. ebind (group_size s group_j) (\<lambda>b. Inr (a * b)))"

definition block_weight :: "state \<Rightarrow> nat \<Rightarrow> nat \<Rightarrow> error + real" where
  "block_weight s group_i group_j = ebind (index (self_w s) group_i) (\<lambda>row. index row group_j)"

definition block_density :: "state \<Rightarrow> nat \<Rightarrow> nat \<Rightarrow> error + real" where
  "block_density s group_i group_j = ebind (index (self_P s) group_i) (\<lambda>row. index row group_j)"

definition cell :: "state \<Rightarrow> nat \<Rightarrow> nat \<Rightarrow> error + real" where
  "cell s row col =
     ebind (get_row (self_adj_matrix s) row) (\<lambda>r.
       if col < length (self_adj_matrix s) then Inr (r ! col) else Inl IndexError)"

definition row_weight :: "state \<Rightarrow> nat \<Rightarrow> nat \<Rightarrow> error + real" where
  "row_weight s row group_i =
     ebind (group_start_idx s group_i) (\<lambda>c_from.
     ebind (group_size s group_i) (\<lambda>size_i.
       let c_to = c_from + size_i in
       if c_from < c_to then row_slice_sum (self_adj_matrix s) row c_from c_to else Inr 0))"

definition col_weight :: "state \<Rightarrow> nat \<Rightarrow> nat \<Rightarrow> error + real" where
  "col_weight s col group_i =
     ebind (group_start_idx s group_i) (\<lambda>r_from.
     ebind (group_size s group_i) (\<lambda>size_i.
       let r_to = r_from + size_i in
       if r_from < r_to then col_slice_sum (self_adj_matrix s) r_from r_to col else Inr 0))"

definition clusters :: "state \<Rightarrow> (nat, node list) dict" where
  "clusters s = self_map_g_n s"

subsection \<open>The cache of block weights and densities\<close>

definition u_block_weight :: "state \<Rightarrow> nat \<Rightarrow> nat \<Rightarrow> error + real" where
  "u_block_weight s group_i group_j =
     ebind (group_start_idx s group_i) (\<lambda>r_from.
     ebind (group_size s group_i) (\<lambda>size_i.
     ebind (group_start_idx s group_j) (\<lambda>c_from.
     ebind (group_size s group_j) (\<lambda>size_j.
       let r_to = r_from + size_i; c_to = c_from + size_j in
       if r_from < r_to \<and> c_from < c_to
       then ebind (emap (\<lambda>r. row_slice_sum (self_adj_matrix s) r c_from c_to) [r_from..<r_to])
              (\<lambda>xs. Inr (sum_list xs))
       else Inr 0))))"

definition u_block_density :: "state \<Rightarrow> nat \<Rightarrow> nat \<Rightarrow> error + real" where
  "u_block_density s group_i group_j =
     ebind (block_weight s group_i group_j) (\<lambda>weight.
     ebind (block_size s group_i group_j) (\<lambda>n.
       Inr ((weight + 1 / 2) / (real n + 1))))"

text \<open>The weights are stored before the densities are computed from them.\<close>

definition u_recalculate_block_properties :: "state \<Rightarrow> unit outcome" where
  "u_recalculate_block_properties s =
     (case emap (\<lambda>i. emap (\<lambda>j. u_block_weight s i j) (groups s)) (groups s) of
        Inl e \<Rightarrow> Raise e s
      | Inr w' \<Rightarrow>
          let s1 = s\<lparr>self_w := w'\<rparr> in
          (case emap (\<lambda>i. emap (\<lambda>j. u_block_density s1 i j) (groups s1)) (groups s1) of
             Inl e \<Rightarrow> Raise e s1
           | Inr P' \<Rightarrow> Return () (s1\<lparr>self_P := P'\<rparr>)))"

subsection \<open>Grouping state and rearrangement\<close>

definition u_add_new_group :: "state \<Rightarrow> unit outcome" where
  "u_add_new_group s =
     (let new_group = self_k s;
          s1 = s\<lparr>self_map_g_n := AList.update new_group [] (self_map_g_n s)\<rparr>;
          s2 = s1\<lparr>self_k := self_k s1 + 1\<rparr>
      in u_recalculate_block_properties s2)"

text \<open>
  The two passes of the rearrangement (rows, then columns) are the same loop over
  \<^verbatim>\<open>enumerate(order_row)\<close>; they differ in the slice they read and write, given here as
  \<open>get\<close> and \<open>put\<close>. The loop returns the matrix as it stands, the set \<^verbatim>\<open>used\<close>, and the
  exception if one was raised.
\<close>

fun switch :: "(matrix \<Rightarrow> nat \<Rightarrow> error + real list) \<Rightarrow> (matrix \<Rightarrow> nat \<Rightarrow> real list \<Rightarrow> error + matrix)
    \<Rightarrow> nat \<Rightarrow> nat list \<Rightarrow> matrix \<Rightarrow> (nat \<rightharpoonup> real list) \<Rightarrow> nat set
    \<Rightarrow> matrix \<times> nat set \<times> error option" where
  "switch get put idx [] adj temp used = (adj, used, None)"
| "switch get put idx (row_num # rest) adj temp used =
     (if idx = row_num then switch get put (Suc idx) rest adj temp (insert row_num used)
      else
        (case (if idx \<notin> used then ebind (get adj idx) (\<lambda>line. Inr (temp(idx \<mapsto> line)))
               else Inr temp) of
           Inl e \<Rightarrow> (adj, used, Some e)
         | Inr temp' \<Rightarrow>
             (case (case temp' row_num of
                      Some line \<Rightarrow> put adj idx line
                    | None \<Rightarrow> ebind (get adj row_num) (\<lambda>line. put adj idx line)) of
                Inl e \<Rightarrow> (adj, used, Some e)
              | Inr adj' \<Rightarrow> switch get put (Suc idx) rest adj' temp' (insert row_num used))))"

definition switch_rows :: "nat list \<Rightarrow> matrix \<Rightarrow> matrix \<times> nat set \<times> error option" where
  "switch_rows order_row adj = switch get_row set_row 0 order_row adj Map.empty {}"

definition switch_cols :: "nat list \<Rightarrow> matrix \<Rightarrow> matrix \<times> nat set \<times> error option" where
  "switch_cols order_row adj = switch get_col set_col 0 order_row adj Map.empty {}"

definition u_rearrange_matrix_and_mappings ::
    "(nat, node list) dict \<Rightarrow> (node, nat) dict \<Rightarrow> state \<Rightarrow> unit outcome" where
  "u_rearrange_matrix_and_mappings map_g_n map_n_g s =
     (case emap (getitem map_g_n) (map fst map_g_n) of
        Inl e \<Rightarrow> Raise e s
      | Inr members \<Rightarrow>
          if length map_n_g \<noteq> sum_list (map length members) then Raise AssertionError s
          else
            let order_node = concat members in
            (case emap (getitem (self_map_n_r s)) order_node of
               Inl e \<Rightarrow> Raise e s
             | Inr order_row \<Rightarrow>
                 (case switch_rows order_row (self_adj_matrix s) of
                    (adj1, used1, Some e) \<Rightarrow> Raise e (s\<lparr>self_adj_matrix := adj1\<rparr>)
                  | (adj1, used1, None) \<Rightarrow>
                      if card used1 \<noteq> length (graph_nodes (self_graph s))
                      then Raise AssertionError (s\<lparr>self_adj_matrix := adj1\<rparr>)
                      else
                        (case switch_cols order_row adj1 of
                           (adj2, used2, Some e) \<Rightarrow> Raise e (s\<lparr>self_adj_matrix := adj2\<rparr>)
                         | (adj2, used2, None) \<Rightarrow>
                             if card used2 \<noteq> length (graph_nodes (self_graph s))
                             then Raise AssertionError (s\<lparr>self_adj_matrix := adj2\<rparr>)
                             else u_recalculate_block_properties
                                    (s\<lparr>self_adj_matrix := adj2,
                                       self_map_g_n := map_g_n,
                                       self_map_n_g := map_n_g,
                                       self_map_n_r :=
                                         dict_of (zip order_node [0..<length order_node])\<rparr>)))))"

text \<open>\<^verbatim>\<open>self.k - 1\<close> is \<open>-1\<close> when \<open>k = 0\<close>, which is no key of the dict.\<close>

definition u_move_node_to_new_group :: "node \<Rightarrow> state \<Rightarrow> unit outcome" where
  "u_move_node_to_new_group node s =
     (case ebind (getitem (self_map_n_g s) node) (\<lambda>g.
           ebind (getitem (self_map_g_n s) g) (\<lambda>members.
           ebind (set_remove node members) (\<lambda>members'.
             Inr (AList.update g members' (self_map_g_n s))))) of
        Inl e \<Rightarrow> Raise e s
      | Inr d1 \<Rightarrow>
          let s1 = s\<lparr>self_map_g_n := d1\<rparr> in
          (case (if self_k s1 = 0 then Inl KeyError
                 else ebind (getitem (self_map_g_n s1) (self_k s1 - 1)) (\<lambda>members.
                   Inr (AList.update (self_k s1 - 1) (set_add node members) (self_map_g_n s1)))) of
             Inl e \<Rightarrow> Raise e s1
           | Inr d2 \<Rightarrow>
               let s2 = s1\<lparr>self_map_g_n := d2,
                           self_map_n_g := AList.update node (self_k s1 - 1) (self_map_n_g s1)\<rparr> in
               (case u_rearrange_matrix_and_mappings (self_map_g_n s2) (self_map_n_g s2) s2 of
                  Raise e s3 \<Rightarrow> Raise e s3
                | Return _ s3 \<Rightarrow> u_recalculate_block_properties s3)))"

subsection \<open>Cost model\<close>

definition block_code_cost :: "state \<Rightarrow> nat \<Rightarrow> nat \<Rightarrow> error + real" where
  "block_code_cost s i j =
     ebind (block_weight s i j) (\<lambda>weight.
     ebind (block_density s i j) (\<lambda>p.
     ebind (log2 p) (\<lambda>l1.
     ebind (block_size s i j) (\<lambda>n.
     ebind (log2 (1 - p)) (\<lambda>l2.
       Inr (0 - weight * l1 - (real n - weight) * l2))))))"

definition code_cost :: "state \<Rightarrow> error + real" where
  "code_cost s =
     ebind (emap (\<lambda>(i, j). block_code_cost s i j) (List.product (groups s) (groups s)))
       (\<lambda>xs. Inr (sum_list xs))"

definition description_cost_block_weights :: "state \<Rightarrow> error + int" where
  "description_cost_block_weights s =
     ebind (emap (\<lambda>(i, j). ebind (block_size s i j) (\<lambda>n.
                           ebind (log2 (real n + 1)) (\<lambda>l. Inr \<lceil>l\<rceil>)))
              (List.product (groups s) (groups s)))
       (\<lambda>xs. Inr (sum_list xs))"

text \<open>The closure \<^verbatim>\<open>a\<close> of \<^verbatim>\<open>description_cost_group_sizes\<close>, over \<^verbatim>\<open>self.k\<close> and \<^verbatim>\<open>sizes\<close>.\<close>

definition a :: "nat \<Rightarrow> nat list \<Rightarrow> nat \<Rightarrow> error + int" where
  "a k sizes group_i =
     efoldl (\<lambda>val g. ebind (index sizes g) (\<lambda>sz. Inr (val + int sz)))
       (1 - int k + int group_i) [group_i..<k]"

definition description_cost_group_sizes :: "state \<Rightarrow> error + int" where
  "description_cost_group_sizes s =
     (if self_k s = 1 then Inr 0
      else
        ebind (emap (group_size s) (groups s)) (\<lambda>szs.
          let sizes = rev (sort szs) in
          efoldl (\<lambda>res grp. ebind (a (self_k s) sizes grp) (\<lambda>v.
                             ebind (log2 (real_of_int v)) (\<lambda>l. Inr (res + \<lceil>l\<rceil>))))
            0 [0..<self_k s - 1]))"

definition description_cost :: "state \<Rightarrow> error + real" where
  "description_cost s =
     ebind (log_star (real (self_k s))) (\<lambda>c1.
     ebind (description_cost_group_sizes s) (\<lambda>c2.
     ebind (description_cost_block_weights s) (\<lambda>c3.
       Inr (c1 + real_of_int c2 + real_of_int c3))))"

definition total_cost :: "state \<Rightarrow> error + real" where
  "total_cost s =
     ebind (description_cost s) (\<lambda>d. ebind (code_cost s) (\<lambda>c. Inr (d + c)))"

definition rearrange_cost :: "state \<Rightarrow> node \<Rightarrow> nat \<Rightarrow> error + real" where
  "rearrange_cost s node next_group =
     ebind (getitem (self_map_n_g s) node) (\<lambda>g.
     ebind (getitem (self_map_n_r s) node) (\<lambda>x.
       let i = next_group in
       efoldl (\<lambda>cost j.
           ebind (row_weight s x j) (\<lambda>rw.
           ebind (block_density s i j) (\<lambda>p.
           ebind (log2 p) (\<lambda>l1.
           ebind (group_size s j) (\<lambda>size_j.
           ebind (log2 (1 - p)) (\<lambda>l2.
             let cost1 = cost - (rw * l1 + (real size_j - rw) * l2) in
             ebind (col_weight s x j) (\<lambda>cw.
             ebind (block_density s j i) (\<lambda>q.
             ebind (log2 q) (\<lambda>m1.
             ebind (log2 (1 - q)) (\<lambda>m2.
               Inr (cost1 - (cw * m1 + (real size_j - cw) * m2))))))))))))
         0 (groups s)))"

definition group_entropy_per_node :: "state \<Rightarrow> nat \<Rightarrow> error + real" where
  "group_entropy_per_node s group_i =
     ebind (group_size s group_i) (\<lambda>size_i.
       if size_i = 0 then Inr 0
       else
         ebind (emap (\<lambda>g. ebind (block_code_cost s group_i g) (\<lambda>c1.
                           ebind (block_code_cost s g group_i) (\<lambda>c2. Inr (c1 + c2))))
                  (groups s))
           (\<lambda>xs. Inr (sum_list xs / real size_i)))"

text \<open>The local function \<^verbatim>\<open>P(w, n)\<close> of \<^verbatim>\<open>group_entropy_per_node_exclude\<close>.\<close>

definition P_smooth :: "real \<Rightarrow> int \<Rightarrow> real" where
  "P_smooth weight n = (weight + 1 / 2) / (real_of_int n + 1)"

text \<open>
  One pass of the loop over \<^verbatim>\<open>j\<close>: the six locals \<^verbatim>\<open>n_rj, n_jr, w_rj, w_jr, p_rj, p_jr\<close>
  start at 0 and are set by the branch that applies; the two updates of \<^verbatim>\<open>entropy\<close>
  follow in every case.
\<close>

definition exclude_terms ::
    "state \<Rightarrow> nat \<Rightarrow> nat \<Rightarrow> nat \<Rightarrow> error + (int \<times> int \<times> real \<times> real \<times> real \<times> real)" where
  "exclude_terms s group_i x j =
     (if j = group_i then
        ebind (group_size s group_i) (\<lambda>size_i.
          if size_i > 1 then
            ebind (group_size s j) (\<lambda>size_j.
            ebind (block_weight s j j) (\<lambda>w_jj.
            ebind (row_weight s x group_i) (\<lambda>rw.
            ebind (col_weight s x group_i) (\<lambda>cw.
            ebind (cell s x x) (\<lambda>d.
              let n = (int size_j - 1) * (int size_j - 1);
                  weight = w_jj - rw - cw + d;
                  p = P_smooth weight n
              in Inr (n, n, weight, weight, p, p))))))
          else Inr (0, 0, 0, 0, 0, 0))
      else if int j = int (self_k s) - 1 then
        ebind (group_size s group_i) (\<lambda>size_i.
          if size_i > 1 then
            ebind (group_size s j) (\<lambda>size_j.
            ebind (block_weight s group_i j) (\<lambda>w_ij.
            ebind (row_weight s x j) (\<lambda>rw_j.
            ebind (col_weight s x group_i) (\<lambda>cw_i.
            ebind (block_weight s j group_i) (\<lambda>w_ji.
            ebind (col_weight s x j) (\<lambda>cw_j.
            ebind (row_weight s x group_i) (\<lambda>rw_i.
              let n = (int size_i - 1) * (int size_j + 1);
                  w_rj = w_ij - rw_j + cw_i;
                  w_jr = w_ji - cw_j + rw_i
              in Inr (n, n, w_rj, w_jr, P_smooth w_rj n, P_smooth w_jr n))))))))
          else Inr (0, 0, 0, 0, 0, 0))
      else
        ebind (group_size s group_i) (\<lambda>size_i.
          if size_i > 1 then
            ebind (group_size s j) (\<lambda>size_j.
              if size_j > 0 then
                ebind (block_weight s group_i j) (\<lambda>w_ij.
                ebind (row_weight s x j) (\<lambda>rw_j.
                ebind (block_weight s j group_i) (\<lambda>w_ji.
                ebind (col_weight s x j) (\<lambda>cw_j.
                  let n = (int size_i - 1) * int size_j;
                      w_rj = w_ij - rw_j;
                      w_jr = w_ji - cw_j
                  in Inr (n, n, w_rj, w_jr, P_smooth w_rj n, P_smooth w_jr n)))))
              else Inr (0, 0, 0, 0, 0, 0))
          else Inr (0, 0, 0, 0, 0, 0)))"

definition group_entropy_per_node_exclude :: "state \<Rightarrow> nat \<Rightarrow> node \<Rightarrow> error + real" where
  "group_entropy_per_node_exclude s group_i node =
     ebind (group_size s group_i) (\<lambda>size_i.
       if size_i = 1 \<or> size_i = 0 then Inr 0
       else
         ebind (getitem (self_map_n_r s) node) (\<lambda>x.
         ebind (efoldl (\<lambda>entropy j.
                  ebind (exclude_terms s group_i x j) (\<lambda>(n_rj, n_jr, w_rj, w_jr, p_rj, p_jr).
                  ebind (log2 p_rj) (\<lambda>l1.
                  ebind (log2 (1 - p_rj)) (\<lambda>l2.
                    let entropy1 = entropy - (w_rj * l1 + (real_of_int n_rj - w_rj) * l2) in
                    ebind (log2 p_jr) (\<lambda>m1.
                    ebind (log2 (1 - p_jr)) (\<lambda>m2.
                      Inr (entropy1 - (w_jr * m1 + (real_of_int n_jr - w_jr) * m2))))))))
                  0 (groups s))
           (\<lambda>entropy. Inr (entropy / (real size_i - 1)))))"

subsection \<open>Outlier score\<close>

text \<open>
  \<^verbatim>\<open>outlier_score\<close> writes \<^verbatim>\<open>self.w[i][j]\<close> and \<^verbatim>\<open>self.P[i][j]\<close> in place, calls
  \<^verbatim>\<open>total_cost\<close> and writes the saved values back. There is no \<^verbatim>\<open>try\<close> in the method:
  an exception leaves it at once, with the cache as it stands.
\<close>

definition cache_put :: "real list list \<Rightarrow> nat \<Rightarrow> nat \<Rightarrow> real \<Rightarrow> real list list" where
  "cache_put c i j v = c[i := (c ! i)[j := v]]"

definition outlier_score :: "nat \<Rightarrow> nat \<Rightarrow> state \<Rightarrow> real outcome" where
  "outlier_score group_i group_j s =
     (case block_weight s group_i group_j of
        Inl e \<Rightarrow> Raise e s
      | Inr w_orig \<Rightarrow>
          if w_orig = 0 then Return 0 s
          else
            (case block_density s group_i group_j of
               Inl e \<Rightarrow> Raise e s
             | Inr P_orig \<Rightarrow>
                 (case total_cost s of
                    Inl e \<Rightarrow> Raise e s
                  | Inr cost \<Rightarrow>
                      let s1 = s\<lparr>self_w := cache_put (self_w s) group_i group_j (w_orig - 1)\<rparr> in
                      (case block_size s1 group_i group_j of
                         Inl e \<Rightarrow> Raise e s1
                       | Inr n \<Rightarrow>
                           if n = 0 then Raise ZeroDivisionError s1
                           else
                             let s2 = s1\<lparr>self_P := cache_put (self_P s1) group_i group_j
                                                        ((w_orig - 1) / real n)\<rparr> in
                             (case total_cost s2 of
                                Inl e \<Rightarrow> Raise e s2
                              | Inr cost' \<Rightarrow>
                                  Return (cost - cost')
                                    (s2\<lparr>self_w := cache_put (self_w s2) group_i group_j w_orig,
                                        self_P := cache_put (self_P s2) group_i group_j P_orig\<rparr>))))))"

subsection \<open>Reporting\<close>

text \<open>
  The arguments of a \<^verbatim>\<open>logging\<close> call are evaluated whatever the level, so a call
  contributes the exceptions of its arguments and nothing else. \<^verbatim>\<open>_report_adj_matrix\<close>
  is the one place that reads the level (\<^verbatim>\<open>logging.INFO\<close> is 20).
\<close>

definition u_plot_adj_matrix :: "state \<Rightarrow> error + matrix \<times> nat list" where
  "u_plot_adj_matrix s =
     ebind (emap (group_start_idx s) (groups s)) (\<lambda>idxs.
       Inr (self_adj_matrix s, filter (\<lambda>idx. idx > 0) idxs))"

definition u_report_adj_matrix :: "string \<Rightarrow> nat \<Rightarrow> state \<Rightarrow> unit outcome" where
  "u_report_adj_matrix loop_name it_num s =
     (if log_level s \<le> 20 then
        (case u_plot_adj_matrix s of
           Inl e \<Rightarrow> Raise e s
         | Inr fig \<Rightarrow>
             Return () (s\<lparr>saved_figs := saved_figs s @ [((self_step s, loop_name, it_num), fig)],
                         self_step := self_step s + 1\<rparr>))
      else Return () (s\<lparr>self_step := self_step s + 1\<rparr>))"

definition u_report_code_cost :: "state \<Rightarrow> error + unit" where
  "u_report_code_cost s = ebind (code_cost s) (\<lambda>c. Inr ())"

subsection \<open>Inner loop\<close>

text \<open>STEP 1 of the inner loop: the \<^verbatim>\<open>for node in self.nodes()\<close> loop that fills the new
  \<^verbatim>\<open>map_n_g\<close> and \<^verbatim>\<open>map_g_n\<close>.\<close>

definition assign_nodes ::
    "state \<Rightarrow> error + (node, nat) dict \<times> (nat, node list) dict" where
  "assign_nodes s =
     efoldl (\<lambda>(map_n_g, map_g_n) node.
         ebind (min_by (\<lambda>g. rearrange_cost s node g) (groups s)) (\<lambda>next_grp.
         ebind (getitem map_g_n next_grp) (\<lambda>members.
         ebind (getitem (self_map_n_g s) node) (\<lambda>old_grp.
           Inr (AList.update node next_grp map_n_g,
                AList.update next_grp (set_add node members) map_g_n)))))
       ([], dict_of (map (\<lambda>g. (g, [])) (groups s))) (nodes s)"

text \<open>One pass of the \<^verbatim>\<open>while True\<close> loop; the result is \<open>True\<close> when the pass ends in
  \<^verbatim>\<open>break\<close>.\<close>

definition inner_iteration :: "nat \<Rightarrow> state \<Rightarrow> bool outcome" where
  "inner_iteration inner_loop_it s =
     (case assign_nodes s of
        Inl e \<Rightarrow> Raise e s
      | Inr (map_n_g, map_g_n) \<Rightarrow>
          (case total_cost s of
             Inl e \<Rightarrow> Raise e s
           | Inr prev_total_cost \<Rightarrow>
               (case u_rearrange_matrix_and_mappings map_g_n map_n_g s of
                  Raise e s1 \<Rightarrow> Raise e s1
                | Return _ s1 \<Rightarrow>
                    (case group_sizes s1 of
                       Inl e \<Rightarrow> Raise e s1
                     | Inr _ \<Rightarrow>
                         (case u_report_adj_matrix ''inner'' inner_loop_it s1 of
                            Raise e s2 \<Rightarrow> Raise e s2
                          | Return _ s2 \<Rightarrow>
                              (case total_cost s2 of
                                 Inl e \<Rightarrow> Raise e s2
                               | Inr cur \<Rightarrow> Return (prev_total_cost - cur < epsilon) s2))))))"

partial_function (option) u_inner_loop :: "nat \<Rightarrow> state \<Rightarrow> unit outcome option" where
  "u_inner_loop inner_loop_it s =
     (case inner_iteration inner_loop_it s of
        Raise e s' \<Rightarrow> Some (Raise e s')
      | Return stop s' \<Rightarrow>
          if stop then Some (Return () s') else u_inner_loop (inner_loop_it + 1) s')"

subsection \<open>Outer loop\<close>

text \<open>STEP 2 of the outer loop: the loop over a copy of the members of \<^verbatim>\<open>group_r\<close>.\<close>

fun seed_split :: "nat \<Rightarrow> node list \<Rightarrow> state \<Rightarrow> unit outcome" where
  "seed_split group_r [] s = Return () s"
| "seed_split group_r (node # rest) s =
     (case group_entropy_per_node_exclude s group_r node of
        Inl e \<Rightarrow> Raise e s
      | Inr excl \<Rightarrow>
          (case group_entropy_per_node s group_r of
             Inl e \<Rightarrow> Raise e s
           | Inr cur \<Rightarrow>
               if excl < cur then
                 (case u_move_node_to_new_group node s of
                    Raise e s' \<Rightarrow> Raise e s'
                  | Return _ s' \<Rightarrow> seed_split group_r rest s')
               else seed_split group_r rest s))"

text \<open>The outer pass up to the call of the inner loop: it yields the total cost before the
  split and the state handed to \<^verbatim>\<open>_inner_loop\<close>.\<close>

definition split_step :: "nat \<Rightarrow> state \<Rightarrow> real outcome" where
  "split_step outer_loop_it s =
     (case total_cost s of
        Inl e \<Rightarrow> Raise e s
      | Inr prev_total_cost \<Rightarrow>
          (case max_by (\<lambda>g. group_entropy_per_node s g) (groups s) of
             Inl e \<Rightarrow> Raise e s
           | Inr group_r \<Rightarrow>
               (case u_add_new_group s of
                  Raise e s1 \<Rightarrow> Raise e s1
                | Return _ s1 \<Rightarrow>
                    (case getitem (self_map_g_n s1) group_r of
                       Inl e \<Rightarrow> Raise e s1
                     | Inr members \<Rightarrow>
                         (case seed_split group_r members s1 of
                            Raise e s2 \<Rightarrow> Raise e s2
                          | Return _ s2 \<Rightarrow>
                              (case group_sizes s2 of
                                 Inl e \<Rightarrow> Raise e s2
                               | Inr _ \<Rightarrow>
                                   (case u_report_adj_matrix ''outer'' outer_loop_it s2 of
                                      Raise e s3 \<Rightarrow> Raise e s3
                                    | Return _ s3 \<Rightarrow> Return prev_total_cost s3)))))))"

text \<open>The rest of the pass, after the inner loop: \<open>True\<close> when the pass ends in \<^verbatim>\<open>break\<close>.\<close>

definition outer_check :: "real \<Rightarrow> state \<Rightarrow> bool outcome" where
  "outer_check prev_total_cost s =
     (case u_report_code_cost s of
        Inl e \<Rightarrow> Raise e s
      | Inr _ \<Rightarrow>
          (case total_cost s of
             Inl e \<Rightarrow> Raise e s
           | Inr cur \<Rightarrow> Return (prev_total_cost - cur < epsilon) s))"

partial_function (option) u_run :: "nat \<Rightarrow> state \<Rightarrow> unit outcome option" where
  "u_run outer_loop_it s =
     (case split_step outer_loop_it s of
        Raise e s1 \<Rightarrow> Some (Raise e s1)
      | Return prev_total_cost s1 \<Rightarrow>
          Option.bind (u_inner_loop 0 s1) (\<lambda>r.
            case r of
              Raise e s2 \<Rightarrow> Some (Raise e s2)
            | Return _ s2 \<Rightarrow>
                (case outer_check prev_total_cost s2 of
                   Raise e s3 \<Rightarrow> Some (Raise e s3)
                 | Return stop s3 \<Rightarrow>
                     if stop then Some (Return () s3) else u_run (outer_loop_it + 1) s3)))"

subsection \<open>Construction\<close>

text \<open>
  \<^verbatim>\<open>__init__\<close>: the fields are set, the cache is filled, the level of the root logger is
  set to \<^verbatim>\<open>log_level\<close>, and \<^verbatim>\<open>_run\<close> is called. \<open>env_level\<close> and \<open>env_figs\<close> are the
  logger level and the saved figures found when the constructor is entered.
\<close>

definition init_fields :: "graph \<Rightarrow> int \<Rightarrow> figure list \<Rightarrow> state" where
  "init_fields g env_level env_figs =
     \<lparr>self_graph = g,
      self_adj_matrix = graph_adj g,
      self_k = 1,
      self_map_g_n = [(0, remdups (graph_nodes g))],
      self_map_n_g = dict_of (map (\<lambda>n. (n, 0)) (graph_nodes g)),
      self_map_n_r = dict_of (zip (graph_nodes g) [0..<length (graph_nodes g)]),
      self_step = 0,
      self_w = [],
      self_P = [],
      log_level = env_level,
      saved_figs = env_figs\<rparr>"

definition Autopart :: "graph \<Rightarrow> int \<Rightarrow> int \<Rightarrow> figure list \<Rightarrow> unit outcome option" where
  "Autopart g level env_level env_figs =
     (case u_recalculate_block_properties (init_fields g env_level env_figs) of
        Raise e s \<Rightarrow> Some (Raise e s)
      | Return _ s \<Rightarrow> u_run 0 (s\<lparr>log_level := level\<rparr>))"

section \<open>The specification's formula for the cost of the group sizes\<close>

text \<open>
  Written from the words of the specification, to be compared with
  \<open>description_cost_group_sizes\<close>: for \<open>k > 1\<close>, sort the group sizes descending and add up,
  for \<open>g\<close> from 0 to \<open>k - 2\<close>, the ceiling of the binary logarithm of
  \<open>1 - k + g + sum(sizes[g..k-1])\<close>; 0 when \<open>k = 1\<close>.
\<close>

definition remaining_combinations :: "nat \<Rightarrow> nat list \<Rightarrow> nat \<Rightarrow> int" where
  "remaining_combinations k sizes g = 1 - int k + int g + (\<Sum>i = g..<k. int (sizes ! i))"

definition spec_description_cost_group_sizes :: "nat \<Rightarrow> nat list \<Rightarrow> int" where
  "spec_description_cost_group_sizes k szs =
     (if k = 1 then 0
      else \<Sum>g = 0..<k - 1. \<lceil>log 2 (real_of_int (remaining_combinations k (rev (sort szs)) g))\<rceil>)"

section \<open>Example inputs\<close>

text \<open>The graph with one node and no edge, and the state of its run when \<^verbatim>\<open>_inner_loop\<close>
  is entered: the only node has been moved to the new group 1.\<close>

definition single_node_graph :: graph where
  "single_node_graph = \<lparr>graph_nodes = [0], graph_adj = [[0]]\<rparr>"

definition single_node_seeded :: state where
  "single_node_seeded =
     \<lparr>self_graph = single_node_graph,
      self_adj_matrix = [[0]],
      self_k = 2,
      self_map_g_n = [(0, []), (1, [0])],
      self_map_n_g = [(0, 1)],
      self_map_n_r = [(0, 0)],
      self_step = 1,
      self_w = [[0, 0], [0, 0]],
      self_P = [[1 / 2, 1 / 2], [1 / 2, 1 / 4]],
      log_level = 40,
      saved_figs = []\<rparr>"

text \<open>The directed graph on three nodes with the edges 0-2, 1-0, 2-0 and 2-1, and the state
  of its run when \<^verbatim>\<open>_inner_loop\<close> is entered for the first time: the split has moved
  all three nodes to the new group 1.\<close>

definition three_node_graph :: graph where
  "three_node_graph = \<lparr>graph_nodes = [0, 1, 2], graph_adj = [[0, 0, 1], [1, 0, 0], [1, 1, 0]]\<rparr>"

definition three_node_seeded :: state where
  "three_node_seeded =
     \<lparr>self_graph = three_node_graph,
      self_adj_matrix = [[0, 0, 1], [1, 0, 0], [1, 1, 0]],
      self_k = 2,
      self_map_g_n = [(0, []), (1, [0, 1, 2])],
      self_map_n_g = [(0, 1), (1, 1), (2, 1)],
      self_map_n_r = [(0, 0), (1, 1), (2, 2)],
      self_step = 1,
      self_w = [[0, 0], [0, 4]],
      self_P = [[1 / 2, 1 / 2], [1 / 2, 9 / 20]],
      log_level = 40,
      saved_figs = []\<rparr>"

text \<open>The directed graph on two nodes with the single edge 0-1, and the object its run
  returns (at the default level \<^verbatim>\<open>logging.ERROR\<close>, 40): two groups, the first empty.\<close>

definition one_edge_graph :: graph where
  "one_edge_graph = \<lparr>graph_nodes = [0, 1], graph_adj = [[0, 1], [0, 0]]\<rparr>"

definition one_edge_final :: state where
  "one_edge_final =
     \<lparr>self_graph = one_edge_graph,
      self_adj_matrix = [[0, 1], [0, 0]],
      self_k = 2,
      self_map_g_n = [(0, []), (1, [0, 1])],
      self_map_n_g = [(0, 1), (1, 1)],
      self_map_n_r = [(0, 0), (1, 1)],
      self_step = 2,
      self_w = [[0, 0], [0, 1]],
      self_P = [[1 / 2, 1 / 2], [1 / 2, 3 / 10]],
      log_level = 40,
      saved_figs = []\<rparr>"

text \<open>The same object after \<^verbatim>\<open>outlier_score(1, 1)\<close> has raised: the cached weight and
  density of block (1, 1) hold the decremented weight 0 and the quotient \<open>0 / 4\<close>.\<close>

definition one_edge_after_raise :: state where
  "one_edge_after_raise =
     one_edge_final\<lparr>self_w := [[0, 0], [0, 0]], self_P := [[1 / 2, 1 / 2], [1 / 2, 0]]\<rparr>"

text \<open>The graph on two nodes with the edges 0-1 and 1-0, and the object its run returns.\<close>

definition two_edge_graph :: graph where
  "two_edge_graph = \<lparr>graph_nodes = [0, 1], graph_adj = [[0, 1], [1, 0]]\<rparr>"

definition two_edge_final :: state where
  "two_edge_final =
     \<lparr>self_graph = two_edge_graph,
      self_adj_matrix = [[0, 1], [1, 0]],
      self_k = 2,
      self_map_g_n = [(0, [0, 1]), (1, [])],
      self_map_n_g = [(0, 0), (1, 0)],
      self_map_n_r = [(0, 0), (1, 1)],
      self_step = 2,
      self_w = [[2, 0], [0, 0]],
      self_P = [[1 / 2, 1 / 2], [1 / 2, 1 / 2]],
      log_level = 40,
      saved_figs = []\<rparr>"

text \<open>The states of the run on the graph with one node: after \<^verbatim>\<open>__init__\<close> has filled the
  cache, and after \<^verbatim>\<open>_add_new_group\<close>.\<close>

definition single_node_start :: state where
  "single_node_start =
     \<lparr>self_graph = single_node_graph,
      self_adj_matrix = [[0]],
      self_k = 1,
      self_map_g_n = [(0, [0])],
      self_map_n_g = [(0, 0)],
      self_map_n_r = [(0, 0)],
      self_step = 0,
      self_w = [[0]],
      self_P = [[1 / 4]],
      log_level = 40,
      saved_figs = []\<rparr>"

definition single_node_added :: state where
  "single_node_added =
     single_node_start\<lparr>self_k := 2, self_map_g_n := [(0, [0]), (1, [])],
       self_w := [[0, 0], [0, 0]], self_P := [[1 / 4, 1 / 2], [1 / 2, 1 / 2]]\<rparr>"

text \<open>The state after the first pass of the inner loop on \<open>three_node_seeded\<close>: nodes 0 and
  2 have been put back into group 0, the rows and columns stand in the order 0, 2, 1.\<close>

definition three_node_after :: state where
  "three_node_after =
     \<lparr>self_graph = three_node_graph,
      self_adj_matrix = [[0, 1, 0], [1, 0, 1], [1, 0, 0]],
      self_k = 2,
      self_map_g_n = [(0, [0, 2]), (1, [1])],
      self_map_n_g = [(0, 0), (1, 1), (2, 0)],
      self_map_n_r = [(0, 0), (2, 1), (1, 2)],
      self_step = 2,
      self_w = [[2, 1], [1, 0]],
      self_P = [[1 / 2, 1 / 2], [1 / 2, 1 / 4]],
      log_level = 40,
      saved_figs = []\<rparr>"

text \<open>The graph on two nodes whose only edge is a loop at node 0, the state of its run when
  \<^verbatim>\<open>_inner_loop\<close> is entered, and the state after the first pass of the inner loop.\<close>

definition self_loop_graph :: graph where
  "self_loop_graph = \<lparr>graph_nodes = [0, 1], graph_adj = [[1, 0], [0, 0]]\<rparr>"

definition self_loop_seeded :: state where
  "self_loop_seeded =
     \<lparr>self_graph = self_loop_graph,
      self_adj_matrix = [[1, 0], [0, 0]],
      self_k = 2,
      self_map_g_n = [(0, []), (1, [0, 1])],
      self_map_n_g = [(0, 1), (1, 1)],
      self_map_n_r = [(0, 0), (1, 1)],
      self_step = 1,
      self_w = [[0, 0], [0, 1]],
      self_P = [[1 / 2, 1 / 2], [1 / 2, 3 / 10]],
      log_level = 40,
      saved_figs = []\<rparr>"

definition self_loop_after :: state where
  "self_loop_after =
     \<lparr>self_graph = self_loop_graph,
      self_adj_matrix = [[1, 0], [0, 0]],
      self_k = 2,
      self_map_g_n = [(0, [0]), (1, [1])],
      self_map_n_g = [(0, 0), (1, 1)],
      self_map_n_r = [(0, 0), (1, 1)],
      self_step = 2,
      self_w = [[1, 0], [0, 0]],
      self_P = [[3 / 4, 1 / 4], [1 / 4, 1 / 4]],
      log_level = 40,
      saved_figs = []\<rparr>"

text \<open>The undirected graph on three nodes with the edge 0-2 and a loop at node 0; the state
  of its run after \<^verbatim>\<open>_add_new_group\<close>, and the state after node 0 has then been moved
  to the new group.\<close>

definition loop_edge_graph :: graph where
  "loop_edge_graph = \<lparr>graph_nodes = [0, 1, 2], graph_adj = [[1, 0, 1], [0, 0, 0], [1, 0, 0]]\<rparr>"

definition loop_edge_added :: state where
  "loop_edge_added =
     \<lparr>self_graph = loop_edge_graph,
      self_adj_matrix = [[1, 0, 1], [0, 0, 0], [1, 0, 0]],
      self_k = 2,
      self_map_g_n = [(0, [0, 1, 2]), (1, [])],
      self_map_n_g = [(0, 0), (1, 0), (2, 0)],
      self_map_n_r = [(0, 0), (1, 1), (2, 2)],
      self_step = 0,
      self_w = [[3, 0], [0, 0]],
      self_P = [[7 / 20, 1 / 2], [1 / 2, 1 / 2]],
      log_level = 40,
      saved_figs = []\<rparr>"

definition loop_edge_moved :: state where
  "loop_edge_moved =
     \<lparr>self_graph = loop_edge_graph,
      self_adj_matrix = [[0, 0, 0], [0, 0, 1], [0, 1, 1]],
      self_k = 2,
      self_map_g_n = [(0, [1, 2]), (1, [0])],
      self_map_n_g = [(0, 1), (1, 0), (2, 0)],
      self_map_n_r = [(1, 0), (2, 1), (0, 2)],
      self_step = 0,
      self_w = [[0, 1], [1, 1]],
      self_P = [[1 / 10, 1 / 2], [1 / 2, 3 / 4]],
      log_level = 40,
      saved_figs = []\<rparr>"

section \<open>Well-formed states\<close>

text \<open>
  The partition property of the specification: every node of the graph is a member of
  exactly one group, and the group sizes add up to the number of nodes.
\<close>

definition partition_ok :: "state \<Rightarrow> bool" where
  "partition_ok s \<longleftrightarrow>
     list_all (\<lambda>n. length (filter (\<lambda>(g, members). n \<in> set members) (self_map_g_n s)) = 1)
       (nodes s) \<and>
     sum_list (map (\<lambda>(g, members). length members) (self_map_g_n s)) = length (nodes s)"

text \<open>
  What the rearrangement relies on in the object it is called on: the nodes of the graph
  are distinct, the matrix has one row per node, and \<^verbatim>\<open>map_n_r\<close> sends nodes of the
  graph to row numbers of the matrix.
\<close>

definition rows_ok :: "state \<Rightarrow> bool" where
  "rows_ok s \<longleftrightarrow>
     distinct (nodes s) \<and>
     length (self_adj_matrix s) = length (nodes s) \<and>
     list_all (\<lambda>(n, r). n \<in> set (nodes s) \<and> r < length (nodes s)) (self_map_n_r s)"

section \<open>The result of a run, and the state without its logging environment\<close>

text \<open>What a caller gets from \<^verbatim>\<open>Autopart(graph, log_level)\<close>: the exception, or the final
  partition with the final total cost.\<close>

definition observable :: "unit outcome \<Rightarrow> error + (nat, node list) dict \<times> (error + real)" where
  "observable r = (case r of Return x s \<Rightarrow> Inr (clusters s, total_cost s) | Raise e s \<Rightarrow> Inl e)"

definition with_env :: "int \<Rightarrow> figure list \<Rightarrow> state \<Rightarrow> state" where
  "with_env level figs s = s\<lparr>log_level := level, saved_figs := figs\<rparr>"

definition core :: "state \<Rightarrow> state" where
  "core s = with_env 0 [] s"

definition ocore :: "'a outcome \<Rightarrow> 'a outcome" where
  "ocore r = (case r of Return x s \<Rightarrow> Return x (core s) | Raise e s \<Rightarrow> Raise e (core s))"

text \<open>Every group index below \<open>k\<close> is a key of \<^verbatim>\<open>map_g_n\<close>.\<close>

definition keys_ok :: "state \<Rightarrow> bool" where
  "keys_ok s \<longleftrightarrow> list_all (\<lambda>g. g \<in> fst ` set (self_map_g_n s)) (groups s)"

definition omap_env :: "int \<Rightarrow> figure list \<Rightarrow> 'a outcome \<Rightarrow> 'a outcome" where
  "omap_env level figs r =
     (case r of Return x s \<Rightarrow> Return x (with_env level figs s)
      | Raise e s \<Rightarrow> Raise e (with_env level figs s))"

section \<open>Termination of the loop of \<^verbatim>\<open>log_star\<close>\<close>

lemma log2_le_minus_one:
  assumes "2 \<le> (x::real)"
  shows "log 2 x \<le> x - 1"
proof -
  have x0: "0 < x" using assms by simp
  have "ln x / ln 2 \<le> x - 1"
  proof -
    have h1: "ln (x / 2) \<le> x / 2 - 1" using ln_le_minus_one[of "x/2"] x0 by simp
    have h2: "ln x = ln 2 + ln (x / 2)" using ln_div[of x 2] x0 by simp
    have "ln (4::real) \<ge> 1"
    proof -
      have "exp (1::real) \<le> 4" using exp_le by simp
      then have "ln (exp (1::real)) \<le> ln 4" by (subst ln_le_cancel_iff) simp_all
      then show ?thesis by simp
    qed
    moreover have "ln (4::real) = 2 * ln 2" using ln_realpow[of 2 2] by simp
    ultimately have l2: "1 / 2 \<le> ln (2::real)" by simp
    have "ln x \<le> ln 2 + (x / 2 - 1)" using h1 h2 by simp
    also have "\<dots> \<le> ln 2 + (x - 2) * ln 2"
    proof -
      have "(x - 2) * (1/2) \<le> (x - 2) * ln 2" using l2 assms by (intro mult_left_mono) simp_all
      then show ?thesis by simp
    qed
    also have "\<dots> = (x - 1) * ln 2" by (simp add: algebra_simps)
    finally show ?thesis using l2 by (simp add: divide_le_eq)
  qed
  then show ?thesis by (simp add: log_def)
qed

lemma log_star_measure:
  assumes "1 / 10000 < (v::real)"
  shows "nat \<lceil>log 2 v\<rceil> < nat \<lceil>v\<rceil>"
proof -
  consider "v \<le> 1" | "1 < v" "v < 2" | "2 \<le> v" by linarith
  then show ?thesis
  proof cases
    case 1
    then have "log 2 v \<le> 0" using assms by simp
    then have "nat \<lceil>log 2 v\<rceil> = 0" by (simp add: ceiling_le_zero)
    moreover have "0 < \<lceil>v\<rceil>" using assms by (simp add: ceiling_less_iff less_ceiling_iff)
    ultimately show ?thesis by simp
  next
    case 2
    then have "log 2 v < 1" using log_less_cancel_iff[of 2 v 2] by simp
    then have "\<lceil>log 2 v\<rceil> \<le> 1" by (simp add: ceiling_le_iff)
    moreover have "2 \<le> \<lceil>v\<rceil>" using 2 by (simp add: le_ceiling_iff)
    ultimately show ?thesis by linarith
  next
    case 3
    then have "log 2 v \<le> v - 1" by (rule log2_le_minus_one)
    then have "\<lceil>log 2 v\<rceil> \<le> \<lceil>v - 1\<rceil>" by (rule ceiling_mono)
    then have "\<lceil>log 2 v\<rceil> \<le> \<lceil>v\<rceil> - 1" by simp
    moreover have "2 \<le> \<lceil>v\<rceil>" using 3 by (simp add: le_ceiling_iff)
    ultimately show ?thesis by linarith
  qed
qed

termination log_star_loop
proof (relation "measure (\<lambda>(res, val). nat \<lceil>val\<rceil>)")
  show "wf (measure (\<lambda>(res, val). nat \<lceil>val\<rceil>))" by simp
next
  fix res val :: real
  assume "val > epsilon"
  then have "1 / 10000 < val" by (simp add: epsilon_def)
  then have "nat \<lceil>log 2 val\<rceil> < nat \<lceil>val\<rceil>" by (rule log_star_measure)
  then show "((res + val, log 2 val), (res, val)) \<in> measure (\<lambda>(res, val). nat \<lceil>val\<rceil>)"
    by simp
qed

section \<open>Exceptions and loops: basic facts\<close>

lemma ebind_Inr [simp]: "ebind (Inr x) f = f x" by (simp add: ebind_def)
lemma ebind_Inl [simp]: "ebind (Inl e) f = Inl e" by (simp add: ebind_def)

lemma ebind_eq_Inr_iff: "ebind m f = Inr y \<longleftrightarrow> (\<exists>x. m = Inr x \<and> f x = Inr y)"
  by (cases m) simp_all

lemma emap_eq_Inr_length: "emap f xs = Inr ys \<Longrightarrow> length ys = length xs"
  by (induction xs arbitrary: ys) (auto simp: ebind_eq_Inr_iff)

lemma index_sum_loop:
  "k \<le> length sizes \<Longrightarrow>
   efoldl (\<lambda>val g. ebind (index sizes g) (\<lambda>sz. Inr (val + int sz))) v [g..<k]
     = Inr (v + int (sum_list (take (k - g) (drop g sizes))))"
proof (induction "k - g" arbitrary: g v)
  case 0
  then show ?case by simp
next
  case (Suc d)
  then have g: "g < k" and d: "d = k - Suc g" by linarith+
  have gl: "g < length sizes" using g Suc.prems by simp
  have dr: "take (k - g) (drop g sizes) = sizes ! g # take (k - Suc g) (drop (Suc g) sizes)"
    using g gl by (metis Cons_nth_drop_Suc Suc_diff_Suc take_Suc_Cons)
  show ?case
    using Suc.hyps(1)[OF d Suc.prems, of "v + int (sizes ! g)"] g gl
    by (simp add: upt_rec[of g k] index_def dr)
qed

lemma a_value:
  "length sizes = k \<Longrightarrow>
   a k sizes g = Inr (1 - int k + int g + int (sum_list (drop g sizes)))"
  using index_sum_loop[of k sizes "1 - int k + int g" g] by (simp add: a_def)

lemma res_loop:
  "efoldl (\<lambda>res grp. ebind (Inr (f grp)) (\<lambda>v. ebind (log2 (real_of_int v)) (\<lambda>l. Inr (res + \<lceil>l\<rceil>)))) r gs
     = (if \<forall>g\<in>set gs. 0 < f g then Inr (r + (\<Sum>g\<leftarrow>gs. \<lceil>log 2 (real_of_int (f g))\<rceil>))
        else Inl ValueError)"
  by (induction gs arbitrary: r) (auto simp: log2_def)

lemma log_star_loop_stop: "\<not> val > epsilon \<Longrightarrow> log_star_loop res val = res"
  by (subst log_star_loop.simps) simp

lemma log_star_defined: "0 < x \<Longrightarrow> log_star x = Inr (log_star_loop 0 (log 2 x))"
  by (simp add: log_star_def log2_def)

lemma log_star_1: "log_star 1 = Inr 0"
  by (simp add: log_star_def log2_def log_star_loop_stop epsilon_def)

lemma log_star_2: "log_star 2 = Inr 1"
proof -
  have "log_star_loop 0 1 = log_star_loop 1 0"
    by (subst log_star_loop.simps) (simp add: epsilon_def)
  also have "\<dots> = 1" by (simp add: log_star_loop_stop epsilon_def)
  finally show ?thesis by (simp add: log_star_def log2_def)
qed

definition size_arg :: "nat \<Rightarrow> nat list \<Rightarrow> nat \<Rightarrow> int" where
  "size_arg k sizes g = 1 - int k + int g + int (sum_list (drop g sizes))"

lemma description_cost_group_sizes_eq:
  assumes szs: "emap (group_size s) (groups s) = Inr szs" and k: "self_k s \<noteq> 1"
  shows "description_cost_group_sizes s =
           (if \<forall>g\<in>set [0..<self_k s - 1]. 0 < size_arg (self_k s) (rev (sort szs)) g
            then Inr (\<Sum>g\<leftarrow>[0..<self_k s - 1].
                        \<lceil>log 2 (real_of_int (size_arg (self_k s) (rev (sort szs)) g))\<rceil>)
            else Inl ValueError)"
proof -
  have len: "length (rev (sort szs)) = self_k s"
    using emap_eq_Inr_length[OF szs] by (simp add: groups_def)
  have av: "\<And>g. a (self_k s) (rev (sort szs)) g = Inr (size_arg (self_k s) (rev (sort szs)) g)"
    unfolding size_arg_def by (rule a_value[OF len])
  show ?thesis
    unfolding description_cost_group_sizes_def
    using k res_loop[of "size_arg (self_k s) (rev (sort szs))" 0 "[0..<self_k s - 1]"]
    by (simp add: szs av Let_def)
qed

lemma size_arg_smallest:
  assumes "length szs = k" "g \<le> k"
  shows "size_arg k (rev (sort szs)) g = 1 - int (k - g) + int (sum_list (take (k - g) (sort szs)))"
  using assms by (simp add: size_arg_def drop_rev sum_list_rev flip: rev_map)

lemma size_arg_fails_iff:
  assumes "length szs = k"
  shows "(\<exists>g\<in>set [0..<k - 1]. size_arg k (rev (sort szs)) g \<le> 0)
         \<longleftrightarrow> (\<exists>m. 2 \<le> m \<and> m \<le> k \<and> sum_list (take m (sort szs)) < m)"
proof
  assume "\<exists>g\<in>set [0..<k - 1]. size_arg k (rev (sort szs)) g \<le> 0"
  then obtain g where g: "g < k - 1" and le: "size_arg k (rev (sort szs)) g \<le> 0" by auto
  have "g \<le> k" using g by simp
  from le size_arg_smallest[OF assms this]
  have "int (sum_list (take (k - g) (sort szs))) < int (k - g)" by linarith
  then have "sum_list (take (k - g) (sort szs)) < k - g" by linarith
  moreover have "2 \<le> k - g" "k - g \<le> k" using g by linarith+
  ultimately show "\<exists>m. 2 \<le> m \<and> m \<le> k \<and> sum_list (take m (sort szs)) < m" by blast
next
  assume "\<exists>m. 2 \<le> m \<and> m \<le> k \<and> sum_list (take m (sort szs)) < m"
  then obtain m where m: "2 \<le> m" "m \<le> k" and lt: "sum_list (take m (sort szs)) < m" by blast
  have g: "k - m < k - 1" "k - m \<le> k" "k - (k - m) = m" using m by linarith+
  have "size_arg k (rev (sort szs)) (k - m) \<le> 0"
    using size_arg_smallest[OF assms g(2)] lt by (simp add: g(3))
  then show "\<exists>g\<in>set [0..<k - 1]. size_arg k (rev (sort szs)) g \<le> 0"
    using g(1) by auto
qed

section \<open>Cost of the group sizes\<close>

lemma int_sum_list_map: "int (sum_list (map f xs)) = (\<Sum>x\<leftarrow>xs. int (f x))"
  by (induction xs) simp_all

lemma remaining_combinations_eq:
  assumes "length sizes = k" "g \<le> k"
  shows "remaining_combinations k sizes g = size_arg k sizes g"
proof -
  have "(\<Sum>i = g..<k. int (sizes ! i)) = (\<Sum>i\<leftarrow>[g..<k]. int (sizes ! i))"
    by (simp add: interv_sum_list_conv_sum_set_nat)
  also have "\<dots> = int (sum_list (drop g sizes))"
  proof -
    have "drop g (map ((!) sizes) [0..<length sizes]) = drop g sizes" by (simp only: map_nth)
    then have "map ((!) sizes) [g..<k] = drop g sizes" using assms by (simp add: drop_map)
    then have "drop g sizes = map (\<lambda>i. sizes ! i) [g..<k]" by simp
    then show ?thesis by (simp add: int_sum_list_map)
  qed
  finally show ?thesis by (simp add: remaining_combinations_def size_arg_def)
qed

text \<open>
  Claim C7. \<open>description_cost_group_sizes\<close> returns 0 when \<open>k = 1\<close>; for \<open>k > 1\<close>, whenever
  every argument of the logarithm is positive it returns the sum, over \<open>g\<close> from 0 to
  \<open>k - 2\<close>, of the ceilings of \<open>log2 (1 - k + g + sum of the descending sizes from g to k - 1)\<close>,
  which is the specification's formula; and a value it returns is always that sum.
\<close>

theorem description_cost_group_sizes_spec:
  "(self_k s = 1 \<longrightarrow> description_cost_group_sizes s = Inr 0) \<and>
   (1 < self_k s \<and> emap (group_size s) (groups s) = Inr szs \<longrightarrow>
      ((\<forall>g<self_k s - 1. 0 < remaining_combinations (self_k s) (rev (sort szs)) g) \<longrightarrow>
         description_cost_group_sizes s = Inr (spec_description_cost_group_sizes (self_k s) szs)) \<and>
      (\<forall>r. description_cost_group_sizes s = Inr r \<longrightarrow>
         r = spec_description_cost_group_sizes (self_k s) szs))"
proof (intro conjI impI)
  assume "self_k s = 1"
  then show "description_cost_group_sizes s = Inr 0"
    by (simp add: description_cost_group_sizes_def)
next
  assume h: "1 < self_k s \<and> emap (group_size s) (groups s) = Inr szs"
  then have k: "self_k s \<noteq> 1" and szs: "emap (group_size s) (groups s) = Inr szs" by simp_all
  have len: "length (rev (sort szs)) = self_k s"
    using emap_eq_Inr_length[OF szs] by (simp add: groups_def)
  have rc: "\<And>g. g < self_k s - 1 \<Longrightarrow>
      remaining_combinations (self_k s) (rev (sort szs)) g = size_arg (self_k s) (rev (sort szs)) g"
    by (rule remaining_combinations_eq[OF len]) simp
  have spec: "spec_description_cost_group_sizes (self_k s) szs =
      (\<Sum>g\<leftarrow>[0..<self_k s - 1]. \<lceil>log 2 (real_of_int (size_arg (self_k s) (rev (sort szs)) g))\<rceil>)"
    using k by (simp add: spec_description_cost_group_sizes_def rc
        interv_sum_list_conv_sum_set_nat)
  note eq = description_cost_group_sizes_eq[OF szs k]
  {
    assume "\<forall>g<self_k s - 1. 0 < remaining_combinations (self_k s) (rev (sort szs)) g"
    then have "\<forall>g\<in>set [0..<self_k s - 1]. 0 < size_arg (self_k s) (rev (sort szs)) g"
      by (simp add: rc)
    then show "description_cost_group_sizes s = Inr (spec_description_cost_group_sizes (self_k s) szs)"
      using eq spec by simp
  }
  show "\<forall>r. description_cost_group_sizes s = Inr r \<longrightarrow>
          r = spec_description_cost_group_sizes (self_k s) szs"
    using eq spec by (auto split: if_splits)
qed

lemma upt_2: "[0..<2] = [0, 1]" by (simp add: upt_rec numeral_2_eq_2)
lemma upt_1: "[0..<1] = [0]" by (simp add: upt_rec)

theorem description_cost_group_sizes_spec_witness:
  "self_k (init_fields single_node_graph 40 []) = 1 \<and>
   description_cost_group_sizes (init_fields single_node_graph 40 []) = Inr 0 \<and>
   1 < self_k three_node_seeded \<and>
   emap (group_size three_node_seeded) (groups three_node_seeded) = Inr [0, 3] \<and>
   self_k three_node_seeded - 1 = 1 \<and>
   0 < remaining_combinations (self_k three_node_seeded) (rev (sort [0, 3])) 0 \<and>
   description_cost_group_sizes three_node_seeded = Inr 1"
proof -
  have k1: "self_k (init_fields single_node_graph 40 []) = 1" by (simp add: init_fields_def)
  have k: "1 < self_k three_node_seeded" by (simp add: three_node_seeded_def)
  have szs: "emap (group_size three_node_seeded) (groups three_node_seeded) = Inr [0, 3]"
    by (simp add: three_node_seeded_def groups_def upt_2 group_size_def getitem_def)
  have rc: "remaining_combinations 2 [3, 0] 0 = 2"
  proof -
    have "(\<Sum>i = 0..<2. int ([3, 0] ! i)) = 3" by (simp add: numeral_2_eq_2)
    then show ?thesis by (simp add: remaining_combinations_def)
  qed
  have km: "self_k three_node_seeded - 1 = 1" by (simp add: three_node_seeded_def)
  have k2: "self_k three_node_seeded = 2" by (simp add: three_node_seeded_def)
  have srt: "rev (sort [0, 3::nat]) = [3, 0]" by simp
  have rc0: "0 < remaining_combinations (self_k three_node_seeded) (rev (sort [0, 3])) 0"
    by (simp only: k2 srt rc)
  have pos: "\<forall>g<self_k three_node_seeded - 1.
       0 < remaining_combinations (self_k three_node_seeded) (rev (sort [0, 3])) g"
    using rc0 by (simp only: km) simp
  have v: "spec_description_cost_group_sizes (self_k three_node_seeded) [0, 3] = 1"
    by (simp only: k2 spec_description_cost_group_sizes_def srt) (simp add: rc)
  have one: "description_cost_group_sizes (init_fields single_node_graph 40 []) = Inr 0"
    using description_cost_group_sizes_spec[of "init_fields single_node_graph 40 []"] k1 by blast
  have two: "description_cost_group_sizes three_node_seeded = Inr 1"
    using description_cost_group_sizes_spec[of three_node_seeded "[0, 3]"] k szs pos v by simp
  show ?thesis
    using k1 k szs km rc0 one two by blast
qed

text \<open>
  Claim C9. For \<open>k > 1\<close>, \<open>description_cost_group_sizes\<close> raises the math domain error
  (\<open>ValueError\<close>) whenever for some \<open>m\<close> with \<open>2 \<le> m \<le> k\<close> the \<open>m\<close> smallest group sizes
  sum to less than \<open>m\<close>, and then so do \<open>description_cost\<close> and \<open>total_cost\<close>; it returns
  a value exactly when there is no such \<open>m\<close>.
\<close>

theorem description_cost_group_sizes_domain_error:
  assumes "1 < self_k s" and "emap (group_size s) (groups s) = Inr szs"
  shows "((\<exists>m. 2 \<le> m \<and> m \<le> self_k s \<and> sum_list (take m (sort szs)) < m) \<longrightarrow>
            description_cost_group_sizes s = Inl ValueError \<and>
            description_cost s = Inl ValueError \<and>
            total_cost s = Inl ValueError) \<and>
         ((\<exists>r. description_cost_group_sizes s = Inr r) \<longleftrightarrow>
            \<not> (\<exists>m. 2 \<le> m \<and> m \<le> self_k s \<and> sum_list (take m (sort szs)) < m))"
proof -
  have k: "self_k s \<noteq> 1" using assms(1) by simp
  have len: "length szs = self_k s"
    using emap_eq_Inr_length[OF assms(2)] by (simp add: groups_def)
  have iff: "(\<exists>m. 2 \<le> m \<and> m \<le> self_k s \<and> sum_list (take m (sort szs)) < m) \<longleftrightarrow>
      \<not> (\<forall>g\<in>set [0..<self_k s - 1]. 0 < size_arg (self_k s) (rev (sort szs)) g)"
    using size_arg_fails_iff[OF len] by (simp add: not_less)
  note eq = description_cost_group_sizes_eq[OF assms(2) k]
  have star: "log_star (real (self_k s)) = Inr (log_star_loop 0 (log 2 (real (self_k s))))"
    using assms(1) by (intro log_star_defined) simp
  have raise: "description_cost_group_sizes s = Inl ValueError \<Longrightarrow>
      description_cost s = Inl ValueError \<and> total_cost s = Inl ValueError"
    by (simp add: description_cost_def total_cost_def star)
  show ?thesis
  proof (cases "\<exists>m. 2 \<le> m \<and> m \<le> self_k s \<and> sum_list (take m (sort szs)) < m")
    case True
    then have "description_cost_group_sizes s = Inl ValueError" using eq iff by simp
    then show ?thesis using True raise by simp
  next
    case False
    then show ?thesis using eq iff by simp
  qed
qed

theorem description_cost_group_sizes_domain_error_witness:
  "1 < self_k single_node_seeded \<and>
   emap (group_size single_node_seeded) (groups single_node_seeded) = Inr [0, 1] \<and>
   (2::nat) \<le> 2 \<and> 2 \<le> self_k single_node_seeded \<and> sum_list (take 2 (sort [0, 1::nat])) < 2 \<and>
   description_cost_group_sizes single_node_seeded = Inl ValueError \<and>
   description_cost single_node_seeded = Inl ValueError \<and>
   total_cost single_node_seeded = Inl ValueError"
proof -
  have k: "1 < self_k single_node_seeded" by (simp add: single_node_seeded_def)
  have szs: "emap (group_size single_node_seeded) (groups single_node_seeded) = Inr [0, 1]"
    by (simp add: single_node_seeded_def groups_def upt_2 group_size_def getitem_def)
  have m: "2 \<le> self_k single_node_seeded \<and> sum_list (take 2 (sort [0, 1::nat])) < 2"
    by (simp add: single_node_seeded_def)
  then have "\<exists>m. 2 \<le> m \<and> m \<le> self_k single_node_seeded \<and> sum_list (take m (sort [0, 1::nat])) < m"
    by (intro exI[of _ 2]) simp
  then show ?thesis
    using description_cost_group_sizes_domain_error[OF k szs] k szs m by simp
qed

lemmas cost_defs = total_cost_def description_cost_def description_cost_block_weights_def
  description_cost_group_sizes_def a_def code_cost_def block_code_cost_def block_size_def
  block_weight_def block_density_def group_size_def groups_def getitem_def index_def log2_def

section \<open>Outlier score\<close>

lemma total_cost_one_edge_final: "\<exists>c. total_cost one_edge_final = Inr c"
  by (simp add: cost_defs one_edge_final_def upt_2 upt_1 log_star_2)

lemma total_cost_one_edge_after_raise: "total_cost one_edge_after_raise = Inl ValueError"
  by (simp add: cost_defs one_edge_after_raise_def one_edge_final_def upt_2 upt_1 log_star_2)

lemma outlier_score_one_edge:
  "outlier_score 1 1 one_edge_final = Raise ValueError one_edge_after_raise"
proof -
  obtain c where c: "total_cost one_edge_final = Inr c"
    using total_cost_one_edge_final by blast
  have w: "block_weight one_edge_final 1 1 = Inr 1"
    by (simp add: block_weight_def index_def one_edge_final_def)
  have p: "block_density one_edge_final 1 1 = Inr (3 / 10)"
    by (simp add: block_density_def index_def one_edge_final_def)
  have s1: "one_edge_final\<lparr>self_w := cache_put (self_w one_edge_final) 1 1 (1 - 1)\<rparr>
      = one_edge_final\<lparr>self_w := [[0, 0], [0, 0]]\<rparr>"
    by (simp add: cache_put_def one_edge_final_def)
  have n: "block_size (one_edge_final\<lparr>self_w := [[0, 0], [0, 0]]\<rparr>) 1 1 = Inr 4"
    by (simp add: block_size_def group_size_def getitem_def one_edge_final_def)
  have s2: "one_edge_final\<lparr>self_w := [[0, 0], [0, 0]],
        self_P := cache_put (self_P (one_edge_final\<lparr>self_w := [[0, 0], [0, 0]]\<rparr>)) 1 1 ((1 - 1) / real 4)\<rparr>
      = one_edge_after_raise"
    by (simp add: cache_put_def one_edge_final_def one_edge_after_raise_def)
  show ?thesis
    unfolding outlier_score_def
    by (simp only: w p c s1 n s2 total_cost_one_edge_after_raise Let_def
        sum.case if_False one_neq_zero zero_neq_numeral numeral_eq_iff) simp
qed

lemma cache_put_same: "cache_put c i j (c ! i ! j) = c"
  by (simp add: cache_put_def)

lemma cache_put_twice: "cache_put (cache_put c i j u) i j v = cache_put c i j v"
  by (cases "i < length c") (simp_all add: cache_put_def list_update_beyond not_less)

lemma block_weight_value: "block_weight s i j = Inr v \<Longrightarrow> v = self_w s ! i ! j"
  by (auto simp: block_weight_def index_def split: if_splits)

lemma block_density_value: "block_density s i j = Inr v \<Longrightarrow> v = self_P s ! i ! j"
  by (auto simp: block_density_def index_def split: if_splits)

lemma state_cache_same:
  "s\<lparr>self_w := cache_put (self_w s) i j (self_w s ! i ! j),
      self_P := cache_put (self_P s) i j (self_P s ! i ! j)\<rparr> = s"
  by (simp add: cache_put_same)

text \<open>
  Claim C8, as the code has it. \<open>outlier_score\<close> returns 0 and leaves the object as it
  is when the cached weight is 0. Whenever it returns, the object is exactly as before
  the call. Whenever it raises, the object differs from the one before the call at most
  in the two cached scalars \<open>w(i,j)\<close> and \<open>P(i,j)\<close>; these are not written back.
\<close>

theorem outlier_score_frame:
  "(block_weight s i j = Inr 0 \<longrightarrow> outlier_score i j s = Return 0 s) \<and>
   (\<forall>v s'. outlier_score i j s = Return v s' \<longrightarrow> s' = s) \<and>
   (\<forall>e s'. outlier_score i j s = Raise e s' \<longrightarrow>
      (\<exists>u v. s' = s\<lparr>self_w := cache_put (self_w s) i j u,
                      self_P := cache_put (self_P s) i j v\<rparr>))"
proof (intro conjI allI impI)
  assume "block_weight s i j = Inr 0"
  then show "outlier_score i j s = Return 0 s" by (simp add: outlier_score_def)
next
  fix v s'
  assume "outlier_score i j s = Return v s'"
  then show "s' = s"
    by (auto simp: outlier_score_def Let_def cache_put_twice cache_put_same
        dest!: block_weight_value block_density_value
        split: sum.splits if_splits)
next
  fix e s'
  assume r: "outlier_score i j s = Raise e s'"
  have same: "s = s\<lparr>self_w := cache_put (self_w s) i j (self_w s ! i ! j),
      self_P := cache_put (self_P s) i j (self_P s ! i ! j)\<rparr>"
    by (simp add: cache_put_same)
  have one: "\<And>u. s\<lparr>self_w := cache_put (self_w s) i j u\<rparr>
      = s\<lparr>self_w := cache_put (self_w s) i j u,
          self_P := cache_put (self_P s) i j (self_P s ! i ! j)\<rparr>"
    by (simp add: cache_put_same)
  from r consider "s' = s"
    | u where "s' = s\<lparr>self_w := cache_put (self_w s) i j u\<rparr>"
    | u v where "s' = s\<lparr>self_w := cache_put (self_w s) i j u,
                        self_P := cache_put (self_P s) i j v\<rparr>"
    by (auto simp: outlier_score_def Let_def split: sum.splits if_splits)
  then show "\<exists>u v. s' = s\<lparr>self_w := cache_put (self_w s) i j u,
                          self_P := cache_put (self_P s) i j v\<rparr>"
  proof cases
    case 1
    then show ?thesis using same by metis
  next
    case 2
    then show ?thesis using one by metis
  next
    case 3
    then show ?thesis by blast
  qed
qed

lemma outlier_score_two_edge: "\<exists>v s'. outlier_score 0 0 two_edge_final = Return v s'"
proof -
  obtain c where c: "total_cost two_edge_final = Inr c"
    by (simp add: cost_defs two_edge_final_def upt_2 upt_1 log_star_2)
  have w: "block_weight two_edge_final 0 0 = Inr 2"
    by (simp add: block_weight_def index_def two_edge_final_def)
  have p: "block_density two_edge_final 0 0 = Inr (1 / 2)"
    by (simp add: block_density_def index_def two_edge_final_def)
  have s1: "two_edge_final\<lparr>self_w := cache_put (self_w two_edge_final) 0 0 (2 - 1)\<rparr>
      = two_edge_final\<lparr>self_w := [[1, 0], [0, 0]]\<rparr>"
    by (simp add: cache_put_def two_edge_final_def)
  have n: "block_size (two_edge_final\<lparr>self_w := [[1, 0], [0, 0]]\<rparr>) 0 0 = Inr 4"
    by (simp add: block_size_def group_size_def getitem_def two_edge_final_def)
  have s2: "two_edge_final\<lparr>self_w := [[1, 0], [0, 0]],
        self_P := cache_put (self_P (two_edge_final\<lparr>self_w := [[1, 0], [0, 0]]\<rparr>)) 0 0 ((2 - 1) / real 4)\<rparr>
      = two_edge_final\<lparr>self_w := [[1, 0], [0, 0]], self_P := [[1 / 4, 1 / 2], [1 / 2, 1 / 2]]\<rparr>"
    by (simp add: cache_put_def two_edge_final_def)
  obtain c' where c': "total_cost (two_edge_final\<lparr>self_w := [[1, 0], [0, 0]],
      self_P := [[1 / 4, 1 / 2], [1 / 2, 1 / 2]]\<rparr>) = Inr c'"
    by (simp add: cost_defs two_edge_final_def upt_2 upt_1 log_star_2)
  show ?thesis
    unfolding outlier_score_def
    by (simp only: w p c s1 n s2 c' Let_def sum.case) simp
qed

theorem outlier_score_frame_witness:
  "block_weight one_edge_final 0 0 = Inr 0 \<and>
   outlier_score 0 0 one_edge_final = Return 0 one_edge_final \<and>
   (\<exists>v. outlier_score 0 0 two_edge_final = Return v two_edge_final) \<and>
   (\<exists>u v. outlier_score 1 1 one_edge_final =
      Raise ValueError (one_edge_final\<lparr>self_w := cache_put (self_w one_edge_final) 1 1 u,
                                       self_P := cache_put (self_P one_edge_final) 1 1 v\<rparr>))"
proof -
  have w0: "block_weight one_edge_final 0 0 = Inr 0"
    by (simp add: block_weight_def index_def one_edge_final_def)
  have a1: "outlier_score 0 0 one_edge_final = Return 0 one_edge_final"
    using outlier_score_frame[of one_edge_final 0 0] w0 by blast
  obtain v s' where r: "outlier_score 0 0 two_edge_final = Return v s'"
    using outlier_score_two_edge by blast
  have "s' = two_edge_final"
    using outlier_score_frame[of two_edge_final 0 0] r by blast
  then have a2: "\<exists>v. outlier_score 0 0 two_edge_final = Return v two_edge_final"
    using r by blast
  have a3: "\<exists>u v. outlier_score 1 1 one_edge_final =
      Raise ValueError (one_edge_final\<lparr>self_w := cache_put (self_w one_edge_final) 1 1 u,
                                       self_P := cache_put (self_P one_edge_final) 1 1 v\<rparr>)"
    using outlier_score_frame[of one_edge_final 1 1] outlier_score_one_edge by metis
  show ?thesis using w0 a1 a2 a3 by blast
qed

theorem outlier_score_not_restored_counterexample:
  "outlier_score 1 1 one_edge_final = Raise ValueError one_edge_after_raise \<and>
   block_weight one_edge_final 1 1 = Inr 1 \<and>
   block_weight one_edge_after_raise 1 1 = Inr 0 \<and>
   block_density one_edge_final 1 1 = Inr (3 / 10) \<and>
   block_density one_edge_after_raise 1 1 = Inr 0"
proof -
  have "block_weight one_edge_final 1 1 = Inr 1"
    and "block_weight one_edge_after_raise 1 1 = Inr 0"
    and "block_density one_edge_final 1 1 = Inr (3 / 10)"
    and "block_density one_edge_after_raise 1 1 = Inr 0"
    by (simp_all add: block_weight_def block_density_def index_def
        one_edge_final_def one_edge_after_raise_def)
  then show ?thesis using outlier_score_one_edge by blast
qed

section \<open>Block density\<close>

lemma u_block_density_bounds:
  assumes "block_weight s i j = Inr v" and "block_size s i j = Inr n"
    and "0 \<le> v" and "v \<le> real n"
  shows "\<exists>p. u_block_density s i j = Inr p \<and> 0 < p \<and> p < 1"
  using assms by (simp add: u_block_density_def)

text \<open>
  Claim C4 at the failing input. On the object returned for the graph with the single
  edge 0-1, \<open>outlier_score 1 1\<close> stores the density \<open>0 / 4 = 0\<close> for block (1, 1), the
  cost computation raises the math domain error, and the cached density is left at 0.
\<close>

theorem outlier_score_density_zero:
  "block_density one_edge_final 1 1 = Inr (3 / 10) \<and>
   outlier_score 1 1 one_edge_final = Raise ValueError one_edge_after_raise \<and>
   block_density one_edge_after_raise 1 1 = Inr 0 \<and>
   total_cost one_edge_after_raise = Inl ValueError"
proof -
  have "block_density one_edge_final 1 1 = Inr (3 / 10)"
    and "block_density one_edge_after_raise 1 1 = Inr 0"
    by (simp_all add: block_density_def index_def one_edge_final_def one_edge_after_raise_def)
  then show ?thesis
    using outlier_score_one_edge total_cost_one_edge_after_raise by blast
qed

section \<open>The run on the graph with one node\<close>

lemmas access_defs = groups_def nodes_def group_size_def group_sizes_def group_start_idx_def
  block_size_def block_weight_def block_density_def cell_def row_weight_def col_weight_def
  getitem_def index_def get_row_def set_row_def get_col_def set_col_def row_slice_sum_def
  col_slice_sum_def dict_of_def set_add_def set_remove_def

lemmas cache_defs = u_block_weight_def u_block_density_def u_recalculate_block_properties_def

lemmas entropy_defs = group_entropy_per_node_def group_entropy_per_node_exclude_def
  exclude_terms_def P_smooth_def block_code_cost_def log2_def

lemmas rearrange_defs = u_rearrange_matrix_and_mappings_def switch_rows_def switch_cols_def
  u_move_node_to_new_group_def u_add_new_group_def

lemma single_node_init:
  "u_recalculate_block_properties (init_fields single_node_graph env_level []) =
     Return () (single_node_start\<lparr>log_level := env_level\<rparr>)"
  by (simp add: init_fields_def single_node_graph_def single_node_start_def cache_defs
      access_defs upt_1)

lemma single_node_total_cost: "\<exists>c. total_cost single_node_start = Inr c"
  by (simp add: cost_defs single_node_start_def upt_1 log_star_1)

lemma single_node_max: "max_by (\<lambda>g. group_entropy_per_node single_node_start g) (groups single_node_start) = Inr 0"
  by (simp add: max_by_def entropy_defs access_defs single_node_start_def upt_1)

lemma single_node_add: "u_add_new_group single_node_start = Return () single_node_added"
  by (simp add: rearrange_defs cache_defs access_defs single_node_start_def single_node_added_def
      upt_2 upt_1)

lemma single_node_exclude: "group_entropy_per_node_exclude single_node_added 0 0 = Inr 0"
  by (simp add: entropy_defs access_defs single_node_added_def single_node_start_def)

lemma single_node_entropy:
  "group_entropy_per_node single_node_added 0 = Inr (- 2 * log 2 (3 / 4))"
  by (simp add: entropy_defs access_defs single_node_added_def single_node_start_def upt_2)

lemma card_one: "card {0::nat} = 1" by simp

lemma single_node_move:
  "u_move_node_to_new_group 0 single_node_added = Return () (single_node_seeded\<lparr>self_step := 0\<rparr>)"
  by (simp add: rearrange_defs cache_defs access_defs single_node_added_def single_node_start_def
      single_node_seeded_def single_node_graph_def upt_2 upt_1 Let_def)

lemma single_node_seed:
  "seed_split 0 [0] single_node_added = Return () (single_node_seeded\<lparr>self_step := 0\<rparr>)"
proof -
  have "(0::real) < - 2 * log 2 (3 / 4)" by simp
  then show ?thesis
    by (simp add: single_node_exclude single_node_entropy single_node_move)
qed

lemma single_node_split:
  "\<exists>c. split_step 0 single_node_start = Return c single_node_seeded"
proof -
  obtain c where c: "total_cost single_node_start = Inr c"
    using single_node_total_cost by blast
  have m: "getitem (self_map_g_n single_node_added) 0 = Inr [0]"
    by (simp add: getitem_def single_node_added_def)
  have g: "\<exists>xs. group_sizes (single_node_seeded\<lparr>self_step := 0\<rparr>) = Inr xs"
    by (simp add: group_sizes_def getitem_def single_node_seeded_def)
  have r: "u_report_adj_matrix ''outer'' 0 (single_node_seeded\<lparr>self_step := 0\<rparr>)
      = Return () single_node_seeded"
    by (simp add: u_report_adj_matrix_def single_node_seeded_def)
  from g show ?thesis
    unfolding split_step_def
    by (auto simp: c single_node_max single_node_add m single_node_seed r
        simp del: seed_split.simps)
qed

lemma single_node_assign: "\<exists>m. assign_nodes single_node_seeded = Inr m"
  by (simp add: assign_nodes_def min_by_def rearrange_cost_def access_defs log2_def
      single_node_seeded_def single_node_graph_def upt_2 upt_1)

lemma single_node_inner:
  "u_inner_loop 0 single_node_seeded = Some (Raise ValueError single_node_seeded)"
proof -
  obtain m where m: "assign_nodes single_node_seeded = Inr m"
    using single_node_assign by blast
  have t: "total_cost single_node_seeded = Inl ValueError"
    by (simp add: cost_defs single_node_seeded_def upt_2 upt_1 log_star_2)
  have "inner_iteration 0 single_node_seeded = Raise ValueError single_node_seeded"
    by (simp add: inner_iteration_def m t split: prod.splits)
  then show ?thesis by (subst u_inner_loop.simps) simp
qed

text \<open>
  Claim C3 at the failing input. The run on the graph with one node and no edge ends in
  the math domain error (\<open>ValueError\<close>): the split moves the node to the new group, and
  the first pass of the inner loop raises in \<open>total_cost\<close>, before the stop condition of
  either loop is reached.
\<close>

theorem run_single_node_raises:
  "Autopart single_node_graph 40 env_level [] = Some (Raise ValueError single_node_seeded)"
proof -
  obtain c where c: "split_step 0 single_node_start = Return c single_node_seeded"
    using single_node_split by blast
  have l: "single_node_start\<lparr>log_level := env_level, log_level := 40\<rparr> = single_node_start"
    by (simp add: single_node_start_def)
  have "u_run 0 single_node_start = Some (Raise ValueError single_node_seeded)"
    by (subst u_run.simps) (simp add: c single_node_inner)
  then show ?thesis
    by (simp add: Autopart_def single_node_init l)
qed

section \<open>Binary logarithms of rationals\<close>

lemma upt_3: "[0..<3] = [0, 1, 2]" by (simp add: upt_rec numeral_3_eq_3)

lemma log2_half: "log 2 (1 / 2) = - 1"
  by (simp add: log_divide)

lemma log2_combo:
  "0 < p \<Longrightarrow> 0 < q \<Longrightarrow> real m * log 2 p + real n * log 2 q = log 2 (p ^ m * q ^ n)"
  by (simp add: log_mult log_nat_power)

lemma log2_le_int: "0 < x \<Longrightarrow> x \<le> 1 / 2 ^ n \<Longrightarrow> log 2 x \<le> - real n"
proof -
  assume x: "0 < x" and le: "x \<le> 1 / 2 ^ n"
  have "log 2 x \<le> log 2 (1 / 2 ^ n)" using x le by (subst log_le_cancel_iff) simp_all
  also have "\<dots> = - real n" by (simp add: log_divide log_nat_power)
  finally show ?thesis .
qed

lemma log2_gt_int: "1 / 2 ^ n < x \<Longrightarrow> - real n < log 2 x"
proof -
  assume lt: "1 / 2 ^ n < x"
  have x: "0 < x" using lt by (rule less_trans[rotated]) simp
  have "- real n = log 2 (1 / 2 ^ n)" by (simp add: log_divide log_nat_power)
  also have "\<dots> < log 2 x" using x lt by (subst log_less_cancel_iff) simp_all
  finally show ?thesis .
qed

lemma ceiling_log2_eq: "2 ^ n < x \<Longrightarrow> x \<le> 2 ^ Suc n \<Longrightarrow> \<lceil>log 2 x\<rceil> = int (Suc n)"
proof -
  assume lo: "2 ^ n < x" and hi: "x \<le> 2 ^ Suc n"
  have x: "0 < x" using lo by (rule less_trans[rotated]) simp
  have "log 2 (2 ^ n) < log 2 x" using x lo by (subst log_less_cancel_iff) simp_all
  then have a: "real n < log 2 x" by (simp add: log_nat_power)
  have "log 2 x \<le> log 2 (2 ^ Suc n)" using x hi by (subst log_le_cancel_iff) simp_all
  then have b: "log 2 x \<le> real (Suc n)" by (simp only: log_nat_power) simp
  show ?thesis using a b by (intro ceiling_unique) simp_all
qed

lemma ceiling_log2_3: "\<lceil>log 2 3\<rceil> = 2" using ceiling_log2_eq[of 1 3] by simp
lemma ceiling_log2_5: "\<lceil>log 2 5\<rceil> = 3" using ceiling_log2_eq[of 2 5] by simp
lemma ceiling_log2_10: "\<lceil>log 2 10\<rceil> = 4" using ceiling_log2_eq[of 3 10] by simp

section \<open>An inner-loop pass that raises the total cost\<close>

lemmas rc_eval = rearrange_cost_def access_defs log2_def three_node_seeded_def upt_2 upt_1
  log2_half

lemma three_node_rc_00: "rearrange_cost three_node_seeded 0 0 = Inr 6" by (simp add: rc_eval)
lemma three_node_rc_10: "rearrange_cost three_node_seeded 1 0 = Inr 6" by (simp add: rc_eval)
lemma three_node_rc_20: "rearrange_cost three_node_seeded 2 0 = Inr 6" by (simp add: rc_eval)

lemma three_node_rc_01:
  "rearrange_cost three_node_seeded 0 1 = Inr (- (3 * log 2 (9 / 20)) - 3 * log 2 (11 / 20))"
  by (simp add: rc_eval)

lemma three_node_rc_11:
  "rearrange_cost three_node_seeded 1 1 = Inr (- (2 * log 2 (9 / 20)) - 4 * log 2 (11 / 20))"
  by (simp add: rc_eval)

lemma three_node_rc_21:
  "rearrange_cost three_node_seeded 2 1 = Inr (- (3 * log 2 (9 / 20)) - 3 * log 2 (11 / 20))"
  by (simp add: rc_eval)

lemma cost_3_3: "\<not> - (3 * log 2 (9 / 20)) - 3 * log 2 (11 / 20) < (6::real)"
proof -
  have "real 3 * log 2 (9 / 20) + real 3 * log 2 (11 / 20) = log 2 ((9 / 20) ^ 3 * (11 / 20) ^ 3)"
    by (rule log2_combo) simp_all
  moreover have "log 2 ((9 / 20) ^ 3 * (11 / 20) ^ 3 :: real) \<le> - real 6"
    by (rule log2_le_int) (simp_all add: power_divide)
  ultimately show ?thesis by simp
qed

lemma cost_2_4: "- (2 * log 2 (9 / 20)) - 4 * log 2 (11 / 20) < (6::real)"
proof -
  have "real 2 * log 2 (9 / 20) + real 4 * log 2 (11 / 20) = log 2 ((9 / 20) ^ 2 * (11 / 20) ^ 4)"
    by (rule log2_combo) simp_all
  moreover have "- real 6 < log 2 ((9 / 20) ^ 2 * (11 / 20) ^ 4 :: real)"
    by (rule log2_gt_int) (simp add: power_divide)
  ultimately show ?thesis by simp
qed

lemma three_node_min_0: "min_by (\<lambda>g. rearrange_cost three_node_seeded 0 g) [0, 1] = Inr 0"
  by (simp add: min_by_def three_node_rc_00 three_node_rc_01 cost_3_3 del: One_nat_def)

lemma three_node_min_1: "min_by (\<lambda>g. rearrange_cost three_node_seeded 1 g) [0, 1] = Inr 1"
  by (simp add: min_by_def three_node_rc_10 three_node_rc_11 cost_2_4 del: One_nat_def)

lemma three_node_min_2: "min_by (\<lambda>g. rearrange_cost three_node_seeded 2 g) [0, 1] = Inr 0"
  by (simp add: min_by_def three_node_rc_20 three_node_rc_21 cost_3_3 del: One_nat_def)

lemma three_node_assign:
  "assign_nodes three_node_seeded = Inr ([(0, 0), (1, 1), (2, 0)], [(0, [0, 2]), (1, [1])])"
proof -
  have g: "groups three_node_seeded = [0, 1]" by (simp add: groups_def three_node_seeded_def upt_2)
  have n: "nodes three_node_seeded = [0, 1, 2]"
    by (simp add: nodes_def three_node_seeded_def three_node_graph_def)
  have m: "self_map_n_g three_node_seeded = [(0, 1), (1, 1), (2, 1)]"
    by (simp add: three_node_seeded_def)
  show ?thesis
    unfolding assign_nodes_def g n m
    by (simp add: three_node_min_0 three_node_min_1 three_node_min_2 getitem_def dict_of_def
        set_add_def del: One_nat_def)
qed

lemma card_3: "card {0, 2, Suc 0} = 3" "card {0::nat, 2, 1} = 3" by simp_all

lemma three_node_rearrange:
  "u_rearrange_matrix_and_mappings [(0, [0, 2]), (1, [1])] [(0, 0), (1, 1), (2, 0)] three_node_seeded
     = Return () (three_node_after\<lparr>self_step := 1\<rparr>)"
  by (simp add: rearrange_defs cache_defs access_defs three_node_seeded_def three_node_after_def
      three_node_graph_def upt_3 upt_2 upt_1 Let_def)

lemma three_node_cost_before:
  "total_cost three_node_seeded = Inr (6 - 4 * log 2 (9 / 20) - 5 * log 2 (11 / 20))"
  by (simp add: cost_defs three_node_seeded_def upt_2 upt_1 log_star_2 ceiling_log2_10)

lemma three_node_cost_after:
  "total_cost three_node_after = Inr (18 - log 2 (3 / 4))"
  by (simp add: cost_defs three_node_after_def upt_2 upt_1 log_star_2 ceiling_log2_5
      ceiling_log2_3 log2_half)

lemma three_node_cost_increase:
  "6 - 4 * log 2 (9 / 20) - 5 * log 2 (11 / 20) < (18 - log 2 (3 / 4) :: real)"
proof -
  have e: "4 * log 2 (9 / 20) + 5 * log 2 (11 / 20) = log 2 ((9 / 20) ^ 4 * (11 / 20) ^ 5 :: real)"
    using log2_combo[of "9 / 20" "11 / 20" 4 5] by simp
  have "- real 12 < log 2 ((9 / 20) ^ 4 * (11 / 20) ^ 5 :: real)"
    by (rule log2_gt_int) (simp add: power_divide)
  then have b: "- 12 < log 2 ((9 / 20) ^ 4 * (11 / 20) ^ 5 :: real)" by simp
  have c: "log 2 (3 / 4 :: real) < 0" by simp
  show ?thesis using e b c by linarith
qed

lemma three_node_iteration: "inner_iteration 0 three_node_seeded = Return True three_node_after"
proof -
  have g: "\<exists>xs. group_sizes (three_node_after\<lparr>self_step := 1\<rparr>) = Inr xs"
    by (simp add: group_sizes_def getitem_def three_node_after_def)
  have r: "u_report_adj_matrix ''inner'' 0 (three_node_after\<lparr>self_step := 1\<rparr>)
      = Return () three_node_after"
    by (simp add: u_report_adj_matrix_def three_node_after_def)
  have stop: "6 - 4 * log 2 (9 / 20) - 5 * log 2 (11 / 20) - (18 - log 2 (3 / 4)) < epsilon"
    using three_node_cost_increase by (simp add: epsilon_def)
  from g stop show ?thesis
    unfolding inner_iteration_def
    by (auto simp: three_node_assign three_node_cost_before three_node_rearrange r
        three_node_cost_after simp del: One_nat_def)
qed

theorem inner_iteration_increases_cost_counterexample:
  "inner_iteration 0 three_node_seeded = Return True three_node_after \<and>
   total_cost three_node_seeded = Inr (6 - 4 * log 2 (9 / 20) - 5 * log 2 (11 / 20)) \<and>
   total_cost three_node_after = Inr (18 - log 2 (3 / 4)) \<and>
   6 - 4 * log 2 (9 / 20) - 5 * log 2 (11 / 20) < (18 - log 2 (3 / 4) :: real)"
  using three_node_iteration three_node_cost_before three_node_cost_after
    three_node_cost_increase by blast

section \<open>An inner-loop pass that lowers the total cost\<close>

lemmas sl_eval = rearrange_cost_def access_defs log2_def self_loop_seeded_def upt_2 upt_1
  log2_half

lemma self_loop_rc_00: "rearrange_cost self_loop_seeded 0 0 = Inr 4" by (simp add: sl_eval)
lemma self_loop_rc_10: "rearrange_cost self_loop_seeded 1 0 = Inr 4" by (simp add: sl_eval)

lemma self_loop_rc_01:
  "rearrange_cost self_loop_seeded 0 1 = Inr (- (2 * log 2 (3 / 10)) - 2 * log 2 (7 / 10))"
  by (simp add: sl_eval)

lemma self_loop_rc_11:
  "rearrange_cost self_loop_seeded 1 1 = Inr (- (4 * log 2 (7 / 10)))"
  by (simp add: sl_eval)

lemma cost_2_2: "\<not> - (2 * log 2 (3 / 10)) - 2 * log 2 (7 / 10) < (4::real)"
proof -
  have e: "2 * log 2 (3 / 10) + 2 * log 2 (7 / 10) = log 2 ((3 / 10) ^ 2 * (7 / 10) ^ 2 :: real)"
    using log2_combo[of "3 / 10" "7 / 10" 2 2] by simp
  have "log 2 ((3 / 10) ^ 2 * (7 / 10) ^ 2 :: real) \<le> - real 4"
    by (rule log2_le_int) (simp_all add: power_divide)
  then show ?thesis using e by simp
qed

lemma cost_0_4: "- (4 * log 2 (7 / 10)) < (4::real)"
proof -
  have e: "4 * log 2 (7 / 10) = log 2 ((7 / 10) ^ 4 :: real)"
    by (simp add: log_nat_power)
  have "- real 4 < log 2 ((7 / 10) ^ 4 :: real)"
    by (rule log2_gt_int) (simp add: power_divide)
  then show ?thesis using e by simp
qed

lemma self_loop_assign:
  "assign_nodes self_loop_seeded = Inr ([(0, 0), (1, 1)], [(0, [0]), (1, [1])])"
proof -
  have g: "groups self_loop_seeded = [0, 1]" by (simp add: groups_def self_loop_seeded_def upt_2)
  have n: "nodes self_loop_seeded = [0, 1]"
    by (simp add: nodes_def self_loop_seeded_def self_loop_graph_def)
  have m: "self_map_n_g self_loop_seeded = [(0, 1), (1, 1)]"
    by (simp add: self_loop_seeded_def)
  have m0: "min_by (\<lambda>g. rearrange_cost self_loop_seeded 0 g) [0, 1] = Inr 0"
    by (simp add: min_by_def self_loop_rc_00 self_loop_rc_01 cost_2_2 del: One_nat_def)
  have m1: "min_by (\<lambda>g. rearrange_cost self_loop_seeded 1 g) [0, 1] = Inr 1"
    by (simp add: min_by_def self_loop_rc_10 self_loop_rc_11 cost_0_4 del: One_nat_def)
  show ?thesis
    unfolding assign_nodes_def g n m
    by (simp add: m0 m1 getitem_def dict_of_def set_add_def del: One_nat_def)
qed

lemma self_loop_rearrange:
  "u_rearrange_matrix_and_mappings [(0, [0]), (1, [1])] [(0, 0), (1, 1)] self_loop_seeded
     = Return () (self_loop_after\<lparr>self_step := 1\<rparr>)"
  by (simp add: rearrange_defs cache_defs access_defs self_loop_seeded_def self_loop_after_def
      self_loop_graph_def upt_2 upt_1 Let_def)

lemma self_loop_cost_before:
  "total_cost self_loop_seeded = Inr (4 - log 2 (3 / 10) - 3 * log 2 (7 / 10))"
  by (simp add: cost_defs self_loop_seeded_def upt_2 upt_1 log_star_2 ceiling_log2_5)

lemma self_loop_cost_after:
  "total_cost self_loop_after = Inr (5 - 4 * log 2 (3 / 4))"
  by (simp add: cost_defs self_loop_after_def upt_2 upt_1 log_star_2)

lemma log2_ge_power: "2 ^ n \<le> x \<Longrightarrow> real n \<le> log 2 x"
proof -
  assume le: "2 ^ n \<le> x"
  have x: "0 < x" using le by (rule less_le_trans[rotated]) simp
  have "real n = log 2 (2 ^ n)" by (simp add: log_nat_power)
  also have "\<dots> \<le> log 2 x" using x le by (subst log_le_cancel_iff) simp_all
  finally show ?thesis .
qed

lemma self_loop_cost_decrease:
  "5 - 4 * log 2 (3 / 4) \<le> (4 - log 2 (3 / 10) - 3 * log 2 (7 / 10)) - (1 / 2 :: real)"
proof -
  have a: "8 * log 2 (3 / 4) = log 2 ((3 / 4) ^ 8 :: real)"
    by (simp add: log_nat_power)
  have b: "2 * log 2 (3 / 10) + 6 * log 2 (7 / 10) = log 2 ((3 / 10) ^ 2 * (7 / 10) ^ 6 :: real)"
    using log2_combo[of "3 / 10" "7 / 10" 2 6] by simp
  have "log 2 ((3 / 4) ^ 8 / ((3 / 10) ^ 2 * (7 / 10) ^ 6) :: real)
      = log 2 ((3 / 4) ^ 8) - log 2 ((3 / 10) ^ 2 * (7 / 10) ^ 6)"
    by (rule log_divide_pos) simp_all
  moreover have "real 3 \<le> log 2 ((3 / 4) ^ 8 / ((3 / 10) ^ 2 * (7 / 10) ^ 6) :: real)"
    by (rule log2_ge_power) (simp add: power_divide)
  ultimately have "3 \<le> log 2 ((3 / 4) ^ 8 :: real) - log 2 ((3 / 10) ^ 2 * (7 / 10) ^ 6)"
    by simp
  then show ?thesis using a b by linarith
qed

lemma self_loop_iteration: "inner_iteration 0 self_loop_seeded = Return False self_loop_after"
proof -
  have g: "\<exists>xs. group_sizes (self_loop_after\<lparr>self_step := 1\<rparr>) = Inr xs"
    by (simp add: group_sizes_def getitem_def self_loop_after_def)
  have r: "u_report_adj_matrix ''inner'' 0 (self_loop_after\<lparr>self_step := 1\<rparr>)
      = Return () self_loop_after"
    by (simp add: u_report_adj_matrix_def self_loop_after_def)
  have go: "\<not> (4 - log 2 (3 / 10) - 3 * log 2 (7 / 10)) - (5 - 4 * log 2 (3 / 4)) < epsilon"
    using self_loop_cost_decrease by (simp add: epsilon_def)
  from g go show ?thesis
    unfolding inner_iteration_def
    by (auto simp: self_loop_assign self_loop_cost_before self_loop_rearrange r
        self_loop_cost_after simp del: One_nat_def)
qed

section \<open>Total cost across a pass of the inner loop\<close>

text \<open>
  Claim C1, as the code has it. A pass of the inner loop that returns has measured the
  total cost before the rearrangement (\<open>c\<close>) and after it (\<open>c'\<close>); it ends the loop
  exactly when \<open>c - c' < epsilon\<close>. So every pass that is followed by another pass has
  lowered the total cost by at least \<open>epsilon\<close>; the last pass of a loop may raise it.
\<close>

theorem inner_iteration_cost:
  assumes "inner_iteration it s = Return stop s'"
  shows "\<exists>c c'. total_cost s = Inr c \<and> total_cost s' = Inr c' \<and>
           (stop \<longleftrightarrow> c - c' < epsilon) \<and> (\<not> stop \<longrightarrow> c' \<le> c - epsilon)"
  using assms
  by (auto simp: inner_iteration_def split: sum.splits prod.splits outcome.splits)

theorem inner_iteration_cost_witness:
  "inner_iteration 0 self_loop_seeded = Return False self_loop_after \<and>
   total_cost self_loop_seeded = Inr (4 - log 2 (3 / 10) - 3 * log 2 (7 / 10)) \<and>
   total_cost self_loop_after = Inr (5 - 4 * log 2 (3 / 4)) \<and>
   5 - 4 * log 2 (3 / 4) \<le> (4 - log 2 (3 / 10) - 3 * log 2 (7 / 10)) - epsilon"
proof -
  obtain c c' where "total_cost self_loop_seeded = Inr c" "total_cost self_loop_after = Inr c'"
    "c' \<le> c - epsilon"
    using inner_iteration_cost[OF self_loop_iteration] by blast
  then show ?thesis
    using self_loop_iteration self_loop_cost_before self_loop_cost_after by simp
qed

section \<open>Predicted and actual entropy of a group after a node leaves it\<close>

lemma loop_edge_exclude:
  "group_entropy_per_node_exclude loop_edge_added 0 0
     = Inr ((- (8 * log 2 (9 / 10)) - 4 * log 2 (5 / 6)) / 2)"
  by (simp add: entropy_defs access_defs loop_edge_added_def upt_2 upt_1 upt_3 Let_def)

lemma loop_edge_current:
  "group_entropy_per_node loop_edge_added 0
     = Inr ((- (6 * log 2 (7 / 20)) - 12 * log 2 (13 / 20)) / 3)"
  by (simp add: entropy_defs access_defs loop_edge_added_def upt_2 upt_1 upt_3 Let_def)

lemma loop_edge_move:
  "u_move_node_to_new_group 0 loop_edge_added = Return () loop_edge_moved"
  by (simp add: rearrange_defs cache_defs access_defs loop_edge_added_def loop_edge_moved_def
      loop_edge_graph_def upt_3 upt_2 upt_1 Let_def)

lemma loop_edge_actual:
  "group_entropy_per_node loop_edge_moved 0 = Inr ((4 - 8 * log 2 (9 / 10)) / 2)"
  by (simp add: entropy_defs access_defs loop_edge_moved_def upt_2 upt_1 upt_3 Let_def log2_half)

lemma loop_edge_worse:
  "(- (8 * log 2 (9 / 10)) - 4 * log 2 (5 / 6)) / 2 < ((4 - 8 * log 2 (9 / 10)) / 2 :: real)"
proof -
  have "- real 1 < log 2 (5 / 6 :: real)" by (rule log2_gt_int) simp
  then show ?thesis by simp
qed

lemma loop_edge_predicted_gain:
  "(- (8 * log 2 (9 / 10)) - 4 * log 2 (5 / 6)) / 2
     < ((- (6 * log 2 (7 / 20)) - 12 * log 2 (13 / 20)) / 3 :: real)"
proof -
  have "- real 1 < log 2 ((5 / 6) ^ 2 :: real)" by (rule log2_gt_int) (simp add: power_divide)
  then have a: "- 1 < 2 * log 2 (5 / 6 :: real)" by (simp add: log_nat_power)
  have "- real 1 < log 2 ((9 / 10) ^ 4 :: real)" by (rule log2_gt_int) (simp add: power_divide)
  then have b: "- 1 < 4 * log 2 (9 / 10 :: real)" by (simp add: log_nat_power)
  have c: "log 2 (7 / 20 :: real) \<le> - real 1" by (rule log2_le_int) simp_all
  have d: "2 * log 2 (13 / 20) = log 2 ((13 / 20) ^ 2 :: real)" by (simp add: log_nat_power)
  have "log 2 ((13 / 20) ^ 2 :: real) \<le> - real 1" by (rule log2_le_int) (simp_all add: power_divide)
  then have e: "2 * log 2 (13 / 20 :: real) \<le> - 1" using d by simp
  have c': "log 2 (7 / 20 :: real) \<le> - 1" using c by simp
  have l: "- (8 * log 2 (9 / 10)) - 4 * log 2 (5 / 6) < (4::real)" using a b by linarith
  have r: "(12::real) \<le> - (6 * log 2 (7 / 20)) - 12 * log 2 (13 / 20)" using c' e by linarith
  have "(- (8 * log 2 (9 / 10)) - 4 * log 2 (5 / 6)) / 2 < (2::real)" using l by simp
  moreover have "(4::real) \<le> (- (6 * log 2 (7 / 20)) - 12 * log 2 (13 / 20)) / 3" using r by simp
  ultimately show ?thesis by linarith
qed

text \<open>
  Claim C2 at the failing input. In the run on the graph with the edge 0-2 and a loop at
  node 0, the split asks whether node 0 should leave group 0. The prediction
  \<open>group_entropy_per_node_exclude\<close> is below the current entropy per node, so the node is
  moved; the entropy per node that \<open>group_entropy_per_node\<close> then reports for group 0 is
  larger than the prediction.
\<close>

theorem entropy_prediction_mismatch:
  "group_entropy_per_node_exclude loop_edge_added 0 0
     = Inr ((- (8 * log 2 (9 / 10)) - 4 * log 2 (5 / 6)) / 2) \<and>
   group_entropy_per_node loop_edge_added 0
     = Inr ((- (6 * log 2 (7 / 20)) - 12 * log 2 (13 / 20)) / 3) \<and>
   (- (8 * log 2 (9 / 10)) - 4 * log 2 (5 / 6)) / 2
     < ((- (6 * log 2 (7 / 20)) - 12 * log 2 (13 / 20)) / 3 :: real) \<and>
   u_move_node_to_new_group 0 loop_edge_added = Return () loop_edge_moved \<and>
   group_entropy_per_node loop_edge_moved 0 = Inr ((4 - 8 * log 2 (9 / 10)) / 2) \<and>
   (- (8 * log 2 (9 / 10)) - 4 * log 2 (5 / 6)) / 2 < ((4 - 8 * log 2 (9 / 10)) / 2 :: real)"
  using loop_edge_exclude loop_edge_current loop_edge_predicted_gain loop_edge_move
    loop_edge_actual loop_edge_worse by blast

section \<open>The rearrangement\<close>

lemma recalculate_fields:
  assumes "u_recalculate_block_properties s = Return x s'"
  shows "s' = s\<lparr>self_w := self_w s', self_P := self_P s'\<rparr>"
  using assms
  by (auto simp: u_recalculate_block_properties_def Let_def split: sum.splits)

lemma switch_used:
  "switch get put idx order adj temp used = (adj', used', None) \<Longrightarrow> used' = used \<union> set order"
proof (induction order arbitrary: idx adj temp used)
  case Nil
  then show ?case by simp
next
  case (Cons row_num rest)
  show ?case
  proof (cases "idx = row_num")
    case True
    with Cons.prems have "switch get put (Suc idx) rest adj temp (insert row_num used) = (adj', used', None)"
      by simp
    from Cons.IH[OF this] show ?thesis by auto
  next
    case False
    with Cons.prems obtain temp' adj1 where
      "switch get put (Suc idx) rest adj1 temp' (insert row_num used) = (adj', used', None)"
      by (auto split: sum.splits)
    from Cons.IH[OF this] show ?thesis by auto
  qed
qed

lemma put_row_length:
  "(case t of Some line \<Rightarrow> set_row adj idx line
    | None \<Rightarrow> ebind (get_row adj row_num) (\<lambda>line. set_row adj idx line)) = Inr adj1
   \<Longrightarrow> length adj1 = length adj \<and> idx < length adj"
  by (auto simp: set_row_def get_row_def split: option.splits if_splits)

lemma save_row_bound:
  "ebind (get_row adj idx) (\<lambda>line. Inr (temp(idx \<mapsto> line))) = Inr temp' \<Longrightarrow> idx < length adj"
  by (auto simp: get_row_def split: if_splits)

lemma switch_rows_length:
  "switch get_row set_row idx order adj temp used = (adj', used', err) \<Longrightarrow> length adj' = length adj"
proof (induction order arbitrary: idx adj temp used)
  case Nil
  then show ?case by simp
next
  case (Cons row_num rest)
  show ?case
  proof (cases "idx = row_num")
    case True
    with Cons.prems have "switch get_row set_row (Suc idx) rest adj temp (insert row_num used) = (adj', used', err)"
      by simp
    from Cons.IH[OF this] show ?thesis .
  next
    case False
    with Cons.prems consider "adj' = adj"
      | temp' adj1 where "length adj1 = length adj"
          "switch get_row set_row (Suc idx) rest adj1 temp' (insert row_num used) = (adj', used', err)"
      by (auto split: sum.splits dest: put_row_length)
    then show ?thesis
    proof cases
      case 1
      then show ?thesis by simp
    next
      case 2
      from Cons.IH[OF 2(2)] 2(1) show ?thesis by simp
    qed
  qed
qed

text \<open>A row pass that ends without an exception has not gone beyond the last row: at an
  index beyond it, the row number differs from the index and the read of the row raises.\<close>

lemma switch_rows_bound:
  assumes "switch get_row set_row idx order adj temp used = (adj', used', None)"
    and "\<forall>r\<in>set order \<union> used. r < length adj"
  shows "idx + length order \<le> length adj \<or> order = []"
  using assms
proof (induction order arbitrary: idx adj temp used)
  case Nil
  then show ?case by simp
next
  case (Cons row_num rest)
  have rn: "row_num < length adj" using Cons.prems(2) by simp
  show ?case
  proof (cases "idx = row_num")
    case True
    with Cons.prems have sw: "switch get_row set_row (Suc idx) rest adj temp (insert row_num used) = (adj', used', None)"
      by simp
    have "\<forall>r\<in>set rest \<union> insert row_num used. r < length adj" using Cons.prems(2) by auto
    from Cons.IH[OF sw this] True rn show ?thesis by auto
  next
    case False
    have idx: "idx < length adj"
    proof (cases "idx \<in> used")
      case True
      then show ?thesis using Cons.prems(2) by simp
    next
      case nu: False
      with False Cons.prems(1) show ?thesis
        by (auto split: sum.splits dest: save_row_bound)
    qed
    from False Cons.prems(1) obtain temp' adj1 where len: "length adj1 = length adj"
      and sw: "switch get_row set_row (Suc idx) rest adj1 temp' (insert row_num used) = (adj', used', None)"
      by (auto split: sum.splits dest: put_row_length)
    have "\<forall>r\<in>set rest \<union> insert row_num used. r < length adj1" using Cons.prems(2) len by auto
    from Cons.IH[OF sw this] idx len show ?thesis by auto
  qed
qed

lemma put_col_length:
  "(case t of Some line \<Rightarrow> set_col adj idx line
    | None \<Rightarrow> ebind (get_col adj col_num) (\<lambda>line. set_col adj idx line)) = Inr adj1
   \<Longrightarrow> (\<And>line. t = Some line \<Longrightarrow> length line = length adj) \<Longrightarrow> length adj1 = length adj"
  by (auto simp: set_col_def get_col_def split: option.splits if_splits)

lemma save_col_length:
  "ebind (get_col adj idx) (\<lambda>line. Inr (temp(idx \<mapsto> line))) = Inr temp'
   \<Longrightarrow> (\<And>i line. temp i = Some line \<Longrightarrow> length line = length adj)
   \<Longrightarrow> temp' i = Some line \<Longrightarrow> length line = length adj"
  by (auto simp: get_col_def split: if_splits)

lemma switch_cols_length:
  "switch get_col set_col idx order adj temp used = (adj', used', err)
   \<Longrightarrow> (\<And>i line. temp i = Some line \<Longrightarrow> length line = length adj)
   \<Longrightarrow> length adj' = length adj"
proof (induction order arbitrary: idx adj temp used)
  case Nil
  then show ?case by simp
next
  case (Cons col_num rest)
  show ?case
  proof (cases "idx = col_num")
    case True
    with Cons.prems have "switch get_col set_col (Suc idx) rest adj temp (insert col_num used) = (adj', used', err)"
      by simp
    from Cons.IH[OF this Cons.prems(2)] show ?thesis .
  next
    case False
    define saved where "saved = (if idx \<notin> used
        then ebind (get_col adj idx) (\<lambda>line. Inr (temp(idx \<mapsto> line))) else Inr temp)"
    show ?thesis
    proof (cases saved)
      case (Inl e)
      with False Cons.prems(1) show ?thesis by (simp add: saved_def)
    next
      case (Inr temp')
      have t': "\<And>i line. temp' i = Some line \<Longrightarrow> length line = length adj"
      proof (cases "idx \<notin> used")
        case True
        fix i line assume "temp' i = Some line"
        with True Inr Cons.prems(2) show "length line = length adj"
          using save_col_length[of adj idx temp temp' i line] by (simp add: saved_def)
      next
        case False
        fix i line assume "temp' i = Some line"
        with False Inr Cons.prems(2) show "length line = length adj" by (simp add: saved_def)
      qed
      define moved where "moved = (case temp' col_num of Some line \<Rightarrow> set_col adj idx line
          | None \<Rightarrow> ebind (get_col adj col_num) (\<lambda>line. set_col adj idx line))"
      show ?thesis
      proof (cases moved)
        case (Inl e)
        with False Cons.prems(1) Inr show ?thesis by (simp add: saved_def moved_def)
      next
        case adj1: (Inr adj1)
        have len: "length adj1 = length adj"
          using adj1 t' put_col_length[where t="temp' col_num" and adj=adj and idx=idx
              and col_num=col_num and ?adj1.0=adj1]
          by (simp add: moved_def)
        have sw: "switch get_col set_col (Suc idx) rest adj1 temp' (insert col_num used) = (adj', used', err)"
          using False Cons.prems(1) Inr adj1 by (simp add: saved_def moved_def)
        have "\<And>i line. temp' i = Some line \<Longrightarrow> length line = length adj1" using t' len by simp
        from Cons.IH[OF sw this] len show ?thesis by simp
      qed
    qed
  qed
qed

lemma emap_eq_Inr_map: "emap f xs = Inr ys \<Longrightarrow> map f xs = map Inr ys"
  by (induction xs arbitrary: ys) (auto simp: ebind_eq_Inr_iff)

lemma emap_getitem_keys:
  "distinct (map fst d) \<Longrightarrow> emap (getitem d) (map fst d) = Inr (map snd d)"
proof -
  assume dist: "distinct (map fst d)"
  have "set ps \<subseteq> set d \<Longrightarrow> emap (getitem d) (map fst ps) = Inr (map snd ps)" for ps
  proof (induction ps)
    case Nil
    then show ?case by simp
  next
    case (Cons p ps)
    then have "map_of d (fst p) = Some (snd p)" using dist by (cases p) simp
    with Cons show ?case by (simp add: getitem_def)
  qed
  then show ?thesis by simp
qed

lemma emap_getitem_in:
  "emap (getitem d) xs = Inr ys \<Longrightarrow> set (zip xs ys) \<subseteq> set d"
proof (induction xs arbitrary: ys)
  case Nil
  then show ?case by simp
next
  case (Cons x xs)
  then obtain y ys' where y: "getitem d x = Inr y" and r: "emap (getitem d) xs = Inr ys'"
    and ys: "ys = y # ys'"
    by (auto simp: ebind_eq_Inr_iff)
  from y have "(x, y) \<in> set d" by (auto simp: getitem_def split: option.splits dest: map_of_SomeD)
  with Cons.IH[OF r] ys show ?case by auto
qed

lemma update_entries: "set (AList.update key v al) \<subseteq> insert (key, v) (set al)"
  by (induction al) auto

lemma dict_of_entries: "set (dict_of kvs) \<subseteq> set kvs"
proof -
  have "set (foldl (\<lambda>d (key, v). AList.update key v d) d0 kvs) \<subseteq> set d0 \<union> set kvs" for d0 :: "('a \<times> 'b) list"
  proof (induction kvs arbitrary: d0)
    case Nil
    then show ?case by simp
  next
    case (Cons kv kvs)
    obtain key v where kv: "kv = (key, v)" by (cases kv)
    have "set (foldl (\<lambda>d (key, v). AList.update key v d) (AList.update key v d0) kvs)
        \<subseteq> set (AList.update key v d0) \<union> set kvs"
      by (rule Cons.IH)
    also have "\<dots> \<subseteq> set d0 \<union> set (kv # kvs)" using update_entries[of key v d0] kv by auto
    finally show ?case by (simp add: kv)
  qed
  from this[of "[]"] show ?thesis by (simp add: dict_of_def)
qed

lemma dict_of_keys_distinct: "distinct (map fst (dict_of kvs))"
proof -
  have "distinct (map fst d0) \<Longrightarrow> distinct (map fst (foldl (\<lambda>d (key, v). AList.update key v d) d0 kvs))"
    for d0 :: "('a \<times> 'b) list"
    by (induction kvs arbitrary: d0) (auto simp: distinct_update split: prod.splits)
  from this[of "[]"] show ?thesis by (simp add: dict_of_def)
qed

lemma rearrange_Return:
  assumes "u_rearrange_matrix_and_mappings map_g_n map_n_g s = Return x s'"
    and "distinct (map fst map_g_n)"
  shows "\<exists>order_row adj1 used1 adj2 used2.
      length map_n_g = length (concat (map snd map_g_n)) \<and>
      emap (getitem (self_map_n_r s)) (concat (map snd map_g_n)) = Inr order_row \<and>
      switch_rows order_row (self_adj_matrix s) = (adj1, used1, None) \<and>
      card used1 = length (nodes s) \<and>
      switch_cols order_row adj1 = (adj2, used2, None) \<and>
      u_recalculate_block_properties
        (s\<lparr>self_adj_matrix := adj2, self_map_g_n := map_g_n, self_map_n_g := map_n_g,
           self_map_n_r := dict_of (zip (concat (map snd map_g_n))
                                      [0..<length (concat (map snd map_g_n))])\<rparr>) = Return x s'"
  using assms(1)
  unfolding u_rearrange_matrix_and_mappings_def emap_getitem_keys[OF assms(2)] nodes_def
  by (auto simp: Let_def length_concat comp_def split: sum.splits if_splits prod.splits option.splits)

lemma rearrange_accepts_only_partitions:
  assumes ret: "u_rearrange_matrix_and_mappings map_g_n map_n_g s = Return x s'"
    and keys: "distinct (map fst map_g_n)"
    and rows: "rows_ok s"
  shows "distinct (concat (map snd map_g_n)) \<and>
         set (concat (map snd map_g_n)) = set (nodes s) \<and>
         length map_n_g = length (nodes s) \<and>
         self_map_g_n s' = map_g_n \<and> self_map_n_g s' = map_n_g \<and> nodes s' = nodes s \<and>
         rows_ok s'"
proof -
  let ?order_node = "concat (map snd map_g_n)"
  let ?n = "length (nodes s)"
  from rearrange_Return[OF ret keys] obtain order_row adj1 used1 adj2 used2 where
    len: "length map_n_g = length ?order_node"
    and rowsof: "emap (getitem (self_map_n_r s)) ?order_node = Inr order_row"
    and sr: "switch_rows order_row (self_adj_matrix s) = (adj1, used1, None)"
    and card: "card used1 = ?n"
    and sc: "switch_cols order_row adj1 = (adj2, used2, None)"
    and rec: "u_recalculate_block_properties
        (s\<lparr>self_adj_matrix := adj2, self_map_g_n := map_g_n, self_map_n_g := map_n_g,
           self_map_n_r := dict_of (zip ?order_node [0..<length ?order_node])\<rparr>) = Return x s'"
    by blast
  have dn: "distinct (nodes s)" and la: "length (self_adj_matrix s) = ?n"
    and mr: "\<And>n r. (n, r) \<in> set (self_map_n_r s) \<Longrightarrow> n \<in> set (nodes s) \<and> r < ?n"
    using rows by (auto simp: rows_ok_def list_all_iff)
  have lo: "length order_row = length ?order_node"
    using emap_eq_Inr_length[OF rowsof] by simp
  have zipin: "set (zip ?order_node order_row) \<subseteq> set (self_map_n_r s)"
    by (rule emap_getitem_in[OF rowsof])
  have nodes_sub: "set ?order_node \<subseteq> set (nodes s)"
  proof
    fix n assume "n \<in> set ?order_node"
    with lo obtain r where "(n, r) \<in> set (zip ?order_node order_row)"
      by (metis in_set_impl_in_set_zip1)
    then show "n \<in> set (nodes s)" using zipin mr by blast
  qed
  have rows_lt: "\<forall>r\<in>set order_row. r < ?n"
  proof
    fix r assume "r \<in> set order_row"
    with lo obtain n where "(n, r) \<in> set (zip ?order_node order_row)"
      by (metis in_set_impl_in_set_zip2)
    then show "r < ?n" using zipin mr by blast
  qed
  have used1: "used1 = set order_row"
    using switch_used[of get_row set_row 0 order_row "self_adj_matrix s" Map.empty "{}" adj1 used1]
      sr by (simp add: switch_rows_def)
  have bound: "length order_row \<le> ?n"
    using switch_rows_bound[of 0 order_row "self_adj_matrix s" Map.empty "{}" adj1 used1]
      sr rows_lt la by (auto simp: switch_rows_def)
  have "card (set order_row) = length order_row"
    using card used1 bound card_length[of order_row] by simp
  then have d_rows: "distinct order_row" by (rule card_distinct)
  have lrow: "length order_row = ?n" using card used1 d_rows distinct_card by fastforce
  have map_eq: "map (getitem (self_map_n_r s)) ?order_node = map Inr order_row"
    by (rule emap_eq_Inr_map[OF rowsof])
  have d_nodes: "distinct ?order_node"
  proof -
    have "distinct (map Inr order_row :: (error + nat) list)" using d_rows by (simp add: distinct_map)
    then have "distinct (map (getitem (self_map_n_r s)) ?order_node)" by (simp only: map_eq)
    then show ?thesis by (simp add: distinct_map)
  qed
  have set_eq: "set ?order_node = set (nodes s)"
  proof (rule card_subset_eq)
    show "finite (set (nodes s))" by simp
    show "set ?order_node \<subseteq> set (nodes s)" by (rule nodes_sub)
    show "card (set ?order_node) = card (set (nodes s))"
      unfolding distinct_card[OF d_nodes] distinct_card[OF dn]
      by (simp only: lo[symmetric] lrow)
  qed
  have ln: "length ?order_node = ?n" using lo lrow by simp
  let ?s1 = "s\<lparr>self_adj_matrix := adj2, self_map_g_n := map_g_n, self_map_n_g := map_n_g,
           self_map_n_r := dict_of (zip ?order_node [0..<length ?order_node])\<rparr>"
  from recalculate_fields[OF rec] have s': "s' = ?s1\<lparr>self_w := self_w s', self_P := self_P s'\<rparr>" .
  have f1: "self_map_g_n s' = map_g_n" by (subst s') simp
  have f2: "self_map_n_g s' = map_n_g" by (subst s') simp
  have f3: "nodes s' = nodes s" by (subst s') (simp add: nodes_def)
  have f4: "self_adj_matrix s' = adj2" by (subst s') simp
  have f5: "self_map_n_r s' = dict_of (zip ?order_node [0..<length ?order_node])" by (subst s') simp
  have l1: "length adj1 = length (self_adj_matrix s)"
    using switch_rows_length[of 0 order_row "self_adj_matrix s" Map.empty "{}" adj1 used1 None] sr
    by (simp add: switch_rows_def)
  have l2: "length adj2 = length adj1"
    using switch_cols_length[of 0 order_row adj1 Map.empty "{}" adj2 used2 None] sc
    by (simp add: switch_cols_def)
  have entries: "\<And>n r. (n, r) \<in> set (self_map_n_r s') \<Longrightarrow> n \<in> set (nodes s) \<and> r < ?n"
  proof -
    fix n r assume "(n, r) \<in> set (self_map_n_r s')"
    then have "(n, r) \<in> set (zip ?order_node [0..<length ?order_node])"
      using dict_of_entries[of "zip ?order_node [0..<length ?order_node]"] by (auto simp: f5)
    then have "n \<in> set ?order_node" and "r \<in> set [0..<length ?order_node]"
      by (auto dest: set_zip_leftD set_zip_rightD)
    then have "n \<in> set (nodes s)" and "r < length ?order_node"
      by (simp_all only: set_eq set_upt atLeastLessThan_iff)
    then show "n \<in> set (nodes s) \<and> r < ?n" by (simp only: ln)
  qed
  have rows': "rows_ok s'"
    unfolding rows_ok_def f3 f4 using dn la l1 l2 entries by (auto simp: list_all_iff)
  show ?thesis using d_nodes set_eq len ln f1 f2 f3 rows' by simp
qed

section \<open>The partition after a rearrangement\<close>

lemma no_group_contains:
  "n \<notin> set (concat (map snd d)) \<Longrightarrow> filter (\<lambda>(g, members). n \<in> set members) d = []"
  by (induction d) auto

lemma one_group_contains:
  "distinct (concat (map snd d)) \<Longrightarrow> n \<in> set (concat (map snd d))
   \<Longrightarrow> length (filter (\<lambda>(g, members). n \<in> set members) d) = 1"
proof (induction d)
  case Nil
  then show ?case by simp
next
  case (Cons p d)
  obtain g members where p: "p = (g, members)" by (cases p)
  show ?case
  proof (cases "n \<in> set members")
    case True
    then have "n \<notin> set (concat (map snd d))" using Cons.prems(1) p by auto
    then show ?thesis using True p by (simp add: no_group_contains)
  next
    case False
    then have "n \<in> set (concat (map snd d))" using Cons.prems(2) p by simp
    moreover have "distinct (concat (map snd d))" using Cons.prems(1) by simp
    ultimately show ?thesis using Cons.IH False p by simp
  qed
qed

lemma sizes_sum: "sum_list (map (\<lambda>(g, members). length members) d) = length (concat (map snd d))"
  by (induction d) auto

lemma partition_okI:
  assumes "distinct (concat (map snd (self_map_g_n s)))"
    and "set (concat (map snd (self_map_g_n s))) = set (nodes s)"
    and "distinct (nodes s)"
  shows "partition_ok s"
proof -
  have "length (concat (map snd (self_map_g_n s))) = length (nodes s)"
    using assms by (metis distinct_card)
  then show ?thesis
    unfolding partition_ok_def sizes_sum list_all_iff
    using one_group_contains[OF assms(1)] assms(2) by blast
qed

lemma rearrange_partition:
  assumes "u_rearrange_matrix_and_mappings map_g_n map_n_g s = Return x s'"
    and "distinct (map fst map_g_n)" and "rows_ok s"
  shows "partition_ok s' \<and> rows_ok s' \<and> distinct (map fst (self_map_g_n s'))"
proof -
  note r = rearrange_accepts_only_partitions[OF assms]
  have "distinct (nodes s)" using assms(3) by (simp add: rows_ok_def)
  then have "partition_ok s'" using r by (intro partition_okI) simp_all
  then show ?thesis using r assms(2) by simp
qed

lemma recalculate_keeps:
  assumes "u_recalculate_block_properties s = Return x s'"
  shows "partition_ok s' = partition_ok s" and "rows_ok s' = rows_ok s"
    and "self_map_g_n s' = self_map_g_n s"
proof -
  from recalculate_fields[OF assms] have s': "s' = s\<lparr>self_w := self_w s', self_P := self_P s'\<rparr>" .
  show "partition_ok s' = partition_ok s" by (subst s') (simp add: partition_ok_def nodes_def)
  show "rows_ok s' = rows_ok s" by (subst s') (simp add: rows_ok_def nodes_def)
  show "self_map_g_n s' = self_map_g_n s" by (subst s') simp
qed

lemma move_Return:
  assumes "u_move_node_to_new_group node s = Return y s'"
    and "distinct (map fst (self_map_g_n s))"
  shows "\<exists>d2 x s3. distinct (map fst d2) \<and>
      u_rearrange_matrix_and_mappings d2
        (AList.update node (self_k s - 1) (self_map_n_g s))
        (s\<lparr>self_map_g_n := d2,
           self_map_n_g := AList.update node (self_k s - 1) (self_map_n_g s)\<rparr>) = Return x s3 \<and>
      u_recalculate_block_properties s3 = Return y s'"
proof -
  from assms(1) obtain g members members' members2 x s3 where
    re: "u_rearrange_matrix_and_mappings
          (AList.update (self_k s - 1) (set_add node members2)
             (AList.update g members' (self_map_g_n s)))
          (AList.update node (self_k s - 1) (self_map_n_g s))
          (s\<lparr>self_map_g_n := AList.update (self_k s - 1) (set_add node members2)
                                  (AList.update g members' (self_map_g_n s)),
             self_map_n_g := AList.update node (self_k s - 1) (self_map_n_g s)\<rparr>) = Return x s3"
    and rc: "u_recalculate_block_properties s3 = Return y s'"
    by (auto simp: u_move_node_to_new_group_def Let_def ebind_eq_Inr_iff
        split: sum.splits if_splits outcome.splits)
  have "distinct (map fst (AList.update (self_k s - 1) (set_add node members2)
             (AList.update g members' (self_map_g_n s))))"
    using assms(2) by (simp add: distinct_update)
  with re rc show ?thesis by blast
qed

lemma move_partition:
  assumes "u_move_node_to_new_group node s = Return y s'"
    and "distinct (map fst (self_map_g_n s))" and "rows_ok s"
  shows "partition_ok s' \<and> rows_ok s' \<and> distinct (map fst (self_map_g_n s'))"
proof -
  from move_Return[OF assms(1,2)] obtain d2 x s3 where
    keys: "distinct (map fst d2)"
    and re: "u_rearrange_matrix_and_mappings d2
               (AList.update node (self_k s - 1) (self_map_n_g s))
               (s\<lparr>self_map_g_n := d2,
                  self_map_n_g := AList.update node (self_k s - 1) (self_map_n_g s)\<rparr>) = Return x s3"
    and rc: "u_recalculate_block_properties s3 = Return y s'"
    by blast
  have "rows_ok (s\<lparr>self_map_g_n := d2,
                  self_map_n_g := AList.update node (self_k s - 1) (self_map_n_g s)\<rparr>)"
    using assms(3) by (simp add: rows_ok_def nodes_def)
  from rearrange_partition[OF re keys this]
  have "partition_ok s3 \<and> rows_ok s3 \<and> distinct (map fst (self_map_g_n s3))" .
  then show ?thesis using recalculate_keeps[OF rc] by simp
qed

lemma efoldl_invariant:
  assumes "efoldl f acc0 xs = Inr r" and "I acc0"
    and "\<And>acc x acc'. I acc \<Longrightarrow> f acc x = Inr acc' \<Longrightarrow> I acc'"
  shows "I r"
  using assms(1,2)
proof (induction xs arbitrary: acc0)
  case Nil
  then show ?case by simp
next
  case (Cons x xs)
  then obtain acc' where "f acc0 x = Inr acc'" "efoldl f acc' xs = Inr r"
    by (auto simp: ebind_eq_Inr_iff)
  with Cons assms(3) show ?case by blast
qed

lemma assign_nodes_keys:
  assumes "assign_nodes s = Inr (map_n_g, map_g_n)"
  shows "distinct (map fst map_g_n)"
proof -
  have "(\<lambda>(m1, m2). distinct (map fst m2)) (map_n_g, map_g_n)"
  proof (rule efoldl_invariant[OF assms[unfolded assign_nodes_def]])
    show "case ([], dict_of (map (\<lambda>g. (g, [])) (groups s))) of (m1, m2) \<Rightarrow> distinct (map fst m2)"
      by (simp add: dict_of_keys_distinct)
  next
    fix acc :: "(node, nat) dict \<times> (nat, node list) dict" and x acc'
    assume "case acc of (m1, m2) \<Rightarrow> distinct (map fst m2)"
      and "(case acc of (map_n_g, map_g_n) \<Rightarrow> \<lambda>node.
              ebind (min_by (rearrange_cost s node) (groups s)) (\<lambda>next_grp.
              ebind (getitem map_g_n next_grp) (\<lambda>members.
              ebind (getitem (self_map_n_g s) node) (\<lambda>old_grp.
                Inr (AList.update node next_grp map_n_g,
                     AList.update next_grp (set_add node members) map_g_n))))) x = Inr acc'"
    then show "case acc' of (m1, m2) \<Rightarrow> distinct (map fst m2)"
      by (auto simp: ebind_eq_Inr_iff distinct_update split: prod.splits)
  qed
  then show ?thesis by simp
qed

lemma init_partition:
  assumes "u_recalculate_block_properties (init_fields gr lvl figs) = Return x s0"
    and "distinct (graph_nodes gr)" and "length (graph_adj gr) = length (graph_nodes gr)"
  shows "partition_ok s0 \<and> rows_ok s0 \<and> distinct (map fst (self_map_g_n s0))"
proof -
  let ?i = "init_fields gr lvl figs"
  have p: "partition_ok ?i"
    using assms(2) by (intro partition_okI) (simp_all add: init_fields_def nodes_def)
  have "\<And>n r. (n, r) \<in> set (self_map_n_r ?i) \<Longrightarrow> n \<in> set (graph_nodes gr) \<and> r < length (graph_nodes gr)"
  proof -
    fix n r assume "(n, r) \<in> set (self_map_n_r ?i)"
    then have "(n, r) \<in> set (zip (graph_nodes gr) [0..<length (graph_nodes gr)])"
      using dict_of_entries[of "zip (graph_nodes gr) [0..<length (graph_nodes gr)]"]
      by (auto simp: init_fields_def)
    then have "n \<in> set (graph_nodes gr)" and "r \<in> set [0..<length (graph_nodes gr)]"
      by (auto dest: set_zip_leftD set_zip_rightD)
    then show "n \<in> set (graph_nodes gr) \<and> r < length (graph_nodes gr)" by simp
  qed
  then have r: "rows_ok ?i"
    using assms(2,3) by (auto simp: rows_ok_def nodes_def list_all_iff init_fields_def)
  have k: "distinct (map fst (self_map_g_n ?i))" by (simp add: init_fields_def)
  show ?thesis using recalculate_keeps[OF assms(1)] p r k by simp
qed

text \<open>
  Claim C5. After the initial construction, after a move of a node to the new group and
  after the rearrangement that applies the reassignment of the inner loop, every node of
  the graph is a member of exactly one group and the group sizes add up to the number of
  nodes. The graph is one that networkx can hold (distinct nodes, one row of the
  adjacency matrix per node); \<open>rows_ok\<close> and the distinct keys of \<^verbatim>\<open>map_g_n\<close> hold
  after the construction and are handed on by each of the three operations.
\<close>

theorem partition_after_rearrangement:
  "(distinct (graph_nodes gr) \<and> length (graph_adj gr) = length (graph_nodes gr) \<and>
      u_recalculate_block_properties (init_fields gr lvl figs) = Return x0 s0 \<longrightarrow>
        partition_ok s0 \<and> rows_ok s0 \<and> distinct (map fst (self_map_g_n s0))) \<and>
   (rows_ok s \<and> distinct (map fst (self_map_g_n s)) \<and>
      u_move_node_to_new_group node s = Return x1 s1 \<longrightarrow>
        partition_ok s1 \<and> rows_ok s1 \<and> distinct (map fst (self_map_g_n s1))) \<and>
   (rows_ok s \<and> assign_nodes s = Inr (map_n_g, map_g_n) \<and>
      u_rearrange_matrix_and_mappings map_g_n map_n_g s = Return x2 s2 \<longrightarrow>
        partition_ok s2 \<and> rows_ok s2 \<and> distinct (map fst (self_map_g_n s2)))"
proof -
  have one: "distinct (graph_nodes gr) \<and> length (graph_adj gr) = length (graph_nodes gr) \<and>
      u_recalculate_block_properties (init_fields gr lvl figs) = Return x0 s0 \<longrightarrow>
        partition_ok s0 \<and> rows_ok s0 \<and> distinct (map fst (self_map_g_n s0))"
    using init_partition by blast
  have two: "rows_ok s \<and> distinct (map fst (self_map_g_n s)) \<and>
      u_move_node_to_new_group node s = Return x1 s1 \<longrightarrow>
        partition_ok s1 \<and> rows_ok s1 \<and> distinct (map fst (self_map_g_n s1))"
    using move_partition by blast
  have three: "rows_ok s \<and> assign_nodes s = Inr (map_n_g, map_g_n) \<and>
      u_rearrange_matrix_and_mappings map_g_n map_n_g s = Return x2 s2 \<longrightarrow>
        partition_ok s2 \<and> rows_ok s2 \<and> distinct (map fst (self_map_g_n s2))"
  proof
    assume h: "rows_ok s \<and> assign_nodes s = Inr (map_n_g, map_g_n) \<and>
      u_rearrange_matrix_and_mappings map_g_n map_n_g s = Return x2 s2"
    then have "distinct (map fst map_g_n)" using assign_nodes_keys by blast
    with h show "partition_ok s2 \<and> rows_ok s2 \<and> distinct (map fst (self_map_g_n s2))"
      using rearrange_partition by blast
  qed
  from one two three show ?thesis by (intro conjI)
qed

lemma rows_ok_single_node_added: "rows_ok single_node_added"
  by (simp add: rows_ok_def nodes_def single_node_added_def single_node_start_def
      single_node_graph_def)

lemma rows_ok_self_loop_seeded: "rows_ok self_loop_seeded"
  by (simp add: rows_ok_def nodes_def self_loop_seeded_def self_loop_graph_def)

theorem partition_after_rearrangement_witness:
  "distinct (graph_nodes single_node_graph) \<and>
   length (graph_adj single_node_graph) = length (graph_nodes single_node_graph) \<and>
   u_recalculate_block_properties (init_fields single_node_graph 40 []) = Return () single_node_start \<and>
   partition_ok single_node_start \<and>
   rows_ok single_node_added \<and> distinct (map fst (self_map_g_n single_node_added)) \<and>
   u_move_node_to_new_group 0 single_node_added = Return () (single_node_seeded\<lparr>self_step := 0\<rparr>) \<and>
   partition_ok (single_node_seeded\<lparr>self_step := 0\<rparr>) \<and>
   rows_ok self_loop_seeded \<and>
   assign_nodes self_loop_seeded = Inr ([(0, 0), (1, 1)], [(0, [0]), (1, [1])]) \<and>
   u_rearrange_matrix_and_mappings [(0, [0]), (1, [1])] [(0, 0), (1, 1)] self_loop_seeded
     = Return () (self_loop_after\<lparr>self_step := 1\<rparr>) \<and>
   partition_ok (self_loop_after\<lparr>self_step := 1\<rparr>)"
proof -
  have g: "distinct (graph_nodes single_node_graph)"
    "length (graph_adj single_node_graph) = length (graph_nodes single_node_graph)"
    by (simp_all add: single_node_graph_def)
  have i: "u_recalculate_block_properties (init_fields single_node_graph 40 []) = Return () single_node_start"
    using single_node_init[of 40] by (simp add: single_node_start_def)
  have k: "distinct (map fst (self_map_g_n single_node_added))"
    by (simp add: single_node_added_def)
  have p0: "partition_ok single_node_start"
    using partition_after_rearrangement[of single_node_graph 40 "[]" "()" single_node_start] g i
    by blast
  have p1: "partition_ok (single_node_seeded\<lparr>self_step := 0\<rparr>)"
    using partition_after_rearrangement[where s=single_node_added and node=0 and ?x1.0="()"
        and ?s1.0="single_node_seeded\<lparr>self_step := 0\<rparr>"]
      rows_ok_single_node_added k single_node_move by blast
  have p2: "partition_ok (self_loop_after\<lparr>self_step := 1\<rparr>)"
    using partition_after_rearrangement[where s=self_loop_seeded and map_n_g="[(0, 0), (1, 1)]"
        and map_g_n="[(0, [0]), (1, [1])]" and ?x2.0="()"
        and ?s2.0="self_loop_after\<lparr>self_step := 1\<rparr>"]
      rows_ok_self_loop_seeded self_loop_assign self_loop_rearrange by blast
  show ?thesis
    using g i k p0 p1 p2 rows_ok_single_node_added single_node_move rows_ok_self_loop_seeded
      self_loop_assign self_loop_rearrange by blast
qed

section \<open>What the rearrangement checks\<close>

text \<open>
  Claim C6, as the code has it. Before it touches the matrix, the rearrangement checks
  only that \<^verbatim>\<open>map_n_g\<close> has as many entries as the groups of \<^verbatim>\<open>map_g_n\<close> have members
  together; a mismatch raises the assertion with the object untouched. Beyond that, a call
  that returns has been given a partition in which every node of the graph occurs exactly
  once: a partition with a missing or a repeated node never returns normally (it ends in
  \<open>KeyError\<close>, \<open>IndexError\<close> or the assertion after a pass over the matrix).
\<close>

theorem rearrange_validation:
  assumes "rows_ok s" and "distinct (map fst map_g_n)"
  shows "(length map_n_g \<noteq> sum_list (map (\<lambda>(g, members). length members) map_g_n) \<longrightarrow>
            u_rearrange_matrix_and_mappings map_g_n map_n_g s = Raise AssertionError s) \<and>
         (\<forall>x s'. u_rearrange_matrix_and_mappings map_g_n map_n_g s = Return x s' \<longrightarrow>
            distinct (concat (map snd map_g_n)) \<and>
            set (concat (map snd map_g_n)) = set (nodes s) \<and>
            length map_n_g = length (nodes s))"
proof -
  have sz: "sum_list (map length (map snd map_g_n))
      = sum_list (map (\<lambda>(g, members). length members) map_g_n)"
    by (simp add: comp_def case_prod_unfold)
  have one: "length map_n_g \<noteq> sum_list (map (\<lambda>(g, members). length members) map_g_n) \<longrightarrow>
      u_rearrange_matrix_and_mappings map_g_n map_n_g s = Raise AssertionError s"
    unfolding u_rearrange_matrix_and_mappings_def emap_getitem_keys[OF assms(2)] sz[symmetric]
    by simp
  have two: "\<forall>x s'. u_rearrange_matrix_and_mappings map_g_n map_n_g s = Return x s' \<longrightarrow>
      distinct (concat (map snd map_g_n)) \<and>
      set (concat (map snd map_g_n)) = set (nodes s) \<and>
      length map_n_g = length (nodes s)"
    using rearrange_accepts_only_partitions[OF _ assms(2,1)] by blast
  from one two show ?thesis by (intro conjI)
qed

theorem rearrange_validation_witness:
  "rows_ok self_loop_seeded \<and>
   distinct (map fst [(0::nat, [0::nat]), (1, [1])]) \<and>
   u_rearrange_matrix_and_mappings [(0, [0]), (1, [1])] [(0, 0)] self_loop_seeded
     = Raise AssertionError self_loop_seeded \<and>
   u_rearrange_matrix_and_mappings [(0, [0]), (1, [1])] [(0, 0), (1, 1)] self_loop_seeded
     = Return () (self_loop_after\<lparr>self_step := 1\<rparr>) \<and>
   distinct (concat (map snd [(0::nat, [0::nat]), (1, [1])])) \<and>
   set (concat (map snd [(0::nat, [0::nat]), (1, [1])])) = set (nodes self_loop_seeded)"
proof -
  have k: "distinct (map fst [(0::nat, [0::nat]), (1, [1])])" by simp
  have m: "length [(0::nat, 0::nat)] \<noteq> sum_list (map (\<lambda>(g, members). length members) [(0::nat, [0::nat]), (1, [1])])"
    by simp
  have a1: "u_rearrange_matrix_and_mappings [(0, [0]), (1, [1])] [(0, 0)] self_loop_seeded
     = Raise AssertionError self_loop_seeded"
    using rearrange_validation[OF rows_ok_self_loop_seeded k, of "[(0, 0)]"] m by blast
  have a2: "distinct (concat (map snd [(0::nat, [0::nat]), (1, [1])])) \<and>
      set (concat (map snd [(0::nat, [0::nat]), (1, [1])])) = set (nodes self_loop_seeded)"
    using rearrange_validation[OF rows_ok_self_loop_seeded k, of "[(0, 0), (1, 1)]"]
      self_loop_rearrange by blast
  show ?thesis using rows_ok_self_loop_seeded k a1 a2 self_loop_rearrange by blast
qed

theorem rearrange_mutates_before_failing_counterexample:
  "u_rearrange_matrix_and_mappings [(0, [0]), (1, [0])] [(0, 0), (1, 0)] one_edge_final
     = Raise AssertionError (one_edge_final\<lparr>self_adj_matrix := [[0, 1], [0, 1]]\<rparr>) \<and>
   self_adj_matrix one_edge_final = [[0, 1], [0, 0]]"
  by (simp add: rearrange_defs access_defs one_edge_final_def one_edge_graph_def Let_def)

section \<open>The logging level does not reach the computation\<close>

lemma fields_env:
  "self_graph (with_env l fs s) = self_graph s"
  "self_adj_matrix (with_env l fs s) = self_adj_matrix s"
  "self_k (with_env l fs s) = self_k s"
  "self_map_g_n (with_env l fs s) = self_map_g_n s"
  "self_map_n_g (with_env l fs s) = self_map_n_g s"
  "self_map_n_r (with_env l fs s) = self_map_n_r s"
  "self_step (with_env l fs s) = self_step s"
  "self_w (with_env l fs s) = self_w s"
  "self_P (with_env l fs s) = self_P s"
  "log_level (with_env l fs s) = l"
  "saved_figs (with_env l fs s) = fs"
  by (simp_all add: with_env_def)

lemma groups_env: "groups (with_env l fs s) = groups s"
  by (simp add: groups_def fields_env cong: if_cong)

lemma nodes_env: "nodes (with_env l fs s) = nodes s"
  by (simp add: nodes_def fields_env cong: if_cong)

lemma group_size_env: "group_size (with_env l fs s) = group_size s"
  by (rule ext) (simp add: group_size_def fields_env cong: if_cong)

lemma group_sizes_env: "group_sizes (with_env l fs s) = group_sizes s"
  by (simp add: group_sizes_def fields_env cong: if_cong)

lemma group_start_idx_env: "group_start_idx (with_env l fs s) = group_start_idx s"
  by (rule ext) (simp add: group_start_idx_def group_size_env cong: if_cong)

lemma block_size_env: "block_size (with_env l fs s) = block_size s"
  by (intro ext) (simp add: block_size_def group_size_env cong: if_cong)

lemma block_weight_env: "block_weight (with_env l fs s) = block_weight s"
  by (intro ext) (simp add: block_weight_def fields_env cong: if_cong)

lemma block_density_env: "block_density (with_env l fs s) = block_density s"
  by (intro ext) (simp add: block_density_def fields_env cong: if_cong)

lemma cell_env: "cell (with_env l fs s) = cell s"
  by (intro ext) (simp add: cell_def fields_env cong: if_cong)

lemma row_weight_env: "row_weight (with_env l fs s) = row_weight s"
  by (intro ext) (simp add: row_weight_def group_start_idx_env group_size_env fields_env cong: if_cong)

lemma col_weight_env: "col_weight (with_env l fs s) = col_weight s"
  by (intro ext) (simp add: col_weight_def group_start_idx_env group_size_env fields_env cong: if_cong)

lemma block_code_cost_env: "block_code_cost (with_env l fs s) = block_code_cost s"
  by (intro ext) (simp add: block_code_cost_def block_weight_env block_density_env block_size_env cong: if_cong)

lemma code_cost_env: "code_cost (with_env l fs s) = code_cost s"
  by (simp add: code_cost_def block_code_cost_env groups_env cong: if_cong)

lemma description_cost_env: "description_cost (with_env l fs s) = description_cost s"
proof -
  note k = fields_env
  show ?thesis
    by (simp add: description_cost_def description_cost_group_sizes_def
        description_cost_block_weights_def k groups_env group_size_env block_size_env cong: if_cong)
qed

lemma total_cost_env: "total_cost (with_env l fs s) = total_cost s"
  by (simp add: total_cost_def description_cost_env code_cost_env cong: if_cong)

lemma rearrange_cost_env: "rearrange_cost (with_env l fs s) = rearrange_cost s"
proof -
  note m = fields_env
  show ?thesis
    by (intro ext) (simp add: rearrange_cost_def m row_weight_env col_weight_env
        block_density_env group_size_env groups_env cong: if_cong)
qed

lemma group_entropy_per_node_env:
  "group_entropy_per_node (with_env l fs s) = group_entropy_per_node s"
  by (intro ext) (simp add: group_entropy_per_node_def group_size_env block_code_cost_env groups_env cong: if_cong)

lemma exclude_terms_env: "exclude_terms (with_env l fs s) = exclude_terms s"
proof -
  note k = fields_env
  show ?thesis
    by (intro ext) (simp add: exclude_terms_def k group_size_env block_weight_env row_weight_env
        col_weight_env cell_env cong: if_cong)
qed

lemma group_entropy_per_node_exclude_env:
  "group_entropy_per_node_exclude (with_env l fs s) = group_entropy_per_node_exclude s"
proof -
  note m = fields_env
  show ?thesis
    by (intro ext) (simp add: group_entropy_per_node_exclude_def m group_size_env
        exclude_terms_env groups_env cong: if_cong)
qed

lemma assign_nodes_env: "assign_nodes (with_env l fs s) = assign_nodes s"
proof -
  note m = fields_env
  show ?thesis
    by (simp add: assign_nodes_def m rearrange_cost_env groups_env nodes_env cong: if_cong)
qed

lemma u_report_code_cost_env: "u_report_code_cost (with_env l fs s) = u_report_code_cost s"
  by (simp add: u_report_code_cost_def code_cost_env cong: if_cong)

lemma u_plot_adj_matrix_env: "u_plot_adj_matrix (with_env l fs s) = u_plot_adj_matrix s"
  by (simp add: u_plot_adj_matrix_def group_start_idx_env groups_env fields_env cong: if_cong)

lemma omap_env_simps:
  "omap_env l fs (Return x s) = Return x (with_env l fs s)"
  "omap_env l fs (Raise e s) = Raise e (with_env l fs s)"
  by (simp_all add: omap_env_def)

lemma update_env:
  "(with_env l fs s)\<lparr>self_w := w'\<rparr> = with_env l fs (s\<lparr>self_w := w'\<rparr>)"
  "(with_env l fs s)\<lparr>self_P := P'\<rparr> = with_env l fs (s\<lparr>self_P := P'\<rparr>)"
  "(with_env l fs s)\<lparr>self_k := k'\<rparr> = with_env l fs (s\<lparr>self_k := k'\<rparr>)"
  "(with_env l fs s)\<lparr>self_map_g_n := d1\<rparr> = with_env l fs (s\<lparr>self_map_g_n := d1\<rparr>)"
  "(with_env l fs s)\<lparr>self_map_n_g := d2\<rparr> = with_env l fs (s\<lparr>self_map_n_g := d2\<rparr>)"
  "(with_env l fs s)\<lparr>self_map_n_r := d3\<rparr> = with_env l fs (s\<lparr>self_map_n_r := d3\<rparr>)"
  "(with_env l fs s)\<lparr>self_adj_matrix := m\<rparr> = with_env l fs (s\<lparr>self_adj_matrix := m\<rparr>)"
  "(with_env l fs s)\<lparr>self_step := n\<rparr> = with_env l fs (s\<lparr>self_step := n\<rparr>)"
  by (simp_all add: with_env_def)

lemma u_block_weight_env: "u_block_weight (with_env l fs s) = u_block_weight s"
  by (intro ext) (simp add: u_block_weight_def group_start_idx_env group_size_env fields_env
      cong: if_cong)

lemma u_block_density_env: "u_block_density (with_env l fs s) = u_block_density s"
  by (intro ext) (simp add: u_block_density_def block_weight_env block_size_env)

lemma u_recalculate_env:
  "u_recalculate_block_properties (with_env l fs s) = omap_env l fs (u_recalculate_block_properties s)"
  by (simp add: u_recalculate_block_properties_def u_block_weight_env u_block_density_env
      groups_env update_env omap_env_simps Let_def split: sum.splits)

lemma u_add_new_group_env:
  "u_add_new_group (with_env l fs s) = omap_env l fs (u_add_new_group s)"
  by (simp add: u_add_new_group_def Let_def fields_env update_env u_recalculate_env)

lemma u_rearrange_env:
  "u_rearrange_matrix_and_mappings d1 d2 (with_env l fs s)
     = omap_env l fs (u_rearrange_matrix_and_mappings d1 d2 s)"
  by (simp add: u_rearrange_matrix_and_mappings_def Let_def fields_env update_env
      u_recalculate_env omap_env_simps split: sum.splits prod.splits option.splits)

lemma u_move_env:
  "u_move_node_to_new_group node (with_env l fs s)
     = omap_env l fs (u_move_node_to_new_group node s)"
  by (simp add: u_move_node_to_new_group_def Let_def fields_env update_env u_rearrange_env
      u_recalculate_env omap_env_simps split: sum.splits outcome.splits)

lemma seed_split_env:
  "seed_split group_r members (with_env l fs s) = omap_env l fs (seed_split group_r members s)"
proof (induction members arbitrary: s)
  case Nil
  then show ?case by (simp add: omap_env_simps)
next
  case (Cons node rest)
  show ?case
    by (simp add: group_entropy_per_node_exclude_env group_entropy_per_node_env u_move_env
        Cons.IH omap_env_simps split: sum.splits outcome.splits)
qed

section \<open>Group indices are keys of the group map\<close>

lemma emap_all_Inr: "(\<And>x. x \<in> set xs \<Longrightarrow> \<exists>y. f x = Inr y) \<Longrightarrow> \<exists>ys. emap f xs = Inr ys"
proof (induction xs)
  case Nil
  then show ?case by simp
next
  case (Cons x xs)
  then obtain y ys where "f x = Inr y" "emap f xs = Inr ys" by (metis list.set_intros)
  then show ?case by simp
qed

lemma keys_okD: "keys_ok s \<Longrightarrow> g < self_k s \<Longrightarrow> \<exists>n. group_size s g = Inr n"
proof -
  assume "keys_ok s" and "g < self_k s"
  then have "g \<in> fst ` set (self_map_g_n s)" by (simp add: keys_ok_def groups_def list_all_iff)
  then obtain members where "map_of (self_map_g_n s) g = Some members"
    by (metis domIff dom_map_of_conv_image_fst not_Some_eq)
  then show ?thesis by (simp add: group_size_def getitem_def)
qed

lemma group_start_idx_ok:
  assumes "keys_ok s" and "g \<le> self_k s"
  shows "\<exists>n. group_start_idx s g = Inr n"
proof -
  have "\<exists>ys. emap (group_size s) [0..<g] = Inr ys"
    using assms by (intro emap_all_Inr keys_okD) simp_all
  then show ?thesis by (auto simp: group_start_idx_def)
qed

lemma plot_ok: "keys_ok s \<Longrightarrow> \<exists>fig. u_plot_adj_matrix s = Inr fig"
proof -
  assume k: "keys_ok s"
  have "\<exists>ys. emap (group_start_idx s) (groups s) = Inr ys"
    using k by (intro emap_all_Inr group_start_idx_ok) (simp_all add: groups_def)
  then show ?thesis by (auto simp: u_plot_adj_matrix_def)
qed

lemma with_env_twice: "with_env l fs (with_env l' fs' s) = with_env l fs s"
  by (simp add: with_env_def)

lemma with_env_same: "with_env (log_level s) (saved_figs s) s = s"
  by (simp add: with_env_def)

lemma keys_ok_env: "keys_ok (with_env l fs s) = keys_ok s"
  by (simp add: keys_ok_def groups_env fields_env)

lemma report_env:
  assumes "keys_ok s"
  shows "\<exists>fs'. u_report_adj_matrix loop_name it_num (with_env l fs s)
           = omap_env l fs' (u_report_adj_matrix loop_name it_num s)"
proof -
  obtain fig where fig: "u_plot_adj_matrix s = Inr fig" using plot_ok[OF assms] by blast
  have r: "\<exists>fs'. u_report_adj_matrix loop_name it_num (with_env l' fs0 s)
      = Return () (with_env l' fs' (s\<lparr>self_step := self_step s + 1\<rparr>))" for l' fs0
  proof (cases "l' \<le> 20")
    case True
    have "u_report_adj_matrix loop_name it_num (with_env l' fs0 s)
        = Return () (with_env l' (fs0 @ [((self_step s, loop_name, it_num), fig)])
                       (s\<lparr>self_step := self_step s + 1\<rparr>))"
      unfolding u_report_adj_matrix_def u_plot_adj_matrix_env fig fields_env
      using True by (simp add: with_env_def)
    then show ?thesis by blast
  next
    case False
    have "u_report_adj_matrix loop_name it_num (with_env l' fs0 s)
        = Return () (with_env l' fs0 (s\<lparr>self_step := self_step s + 1\<rparr>))"
      unfolding u_report_adj_matrix_def fields_env
      using False by (simp add: with_env_def)
    then show ?thesis by blast
  qed
  from r[of "log_level s" "saved_figs s"] obtain fs1 where
    "u_report_adj_matrix loop_name it_num s
       = Return () (with_env (log_level s) fs1 (s\<lparr>self_step := self_step s + 1\<rparr>))"
    by (auto simp: with_env_same)
  moreover from r[of l fs] obtain fs2 where
    "u_report_adj_matrix loop_name it_num (with_env l fs s)
       = Return () (with_env l fs2 (s\<lparr>self_step := self_step s + 1\<rparr>))"
    by blast
  ultimately show ?thesis by (auto simp: omap_env_simps with_env_twice)
qed

lemma report_keys:
  "u_report_adj_matrix loop_name it_num s = Return x s' \<Longrightarrow> keys_ok s' = keys_ok s"
  by (auto simp: u_report_adj_matrix_def keys_ok_def groups_def split: if_splits sum.splits)

lemma recalculate_keys:
  "u_recalculate_block_properties s = Return x s' \<Longrightarrow> keys_ok s' = keys_ok s"
proof -
  assume "u_recalculate_block_properties s = Return x s'"
  from recalculate_fields[OF this] have s': "s' = s\<lparr>self_w := self_w s', self_P := self_P s'\<rparr>" .
  show ?thesis by (subst s') (simp add: keys_ok_def groups_def)
qed

lemma add_new_group_keys:
  assumes "u_add_new_group s = Return x s'" and "keys_ok s"
  shows "keys_ok s'"
proof -
  let ?s2 = "s\<lparr>self_map_g_n := AList.update (self_k s) [] (self_map_g_n s), self_k := self_k s + 1\<rparr>"
  have "u_recalculate_block_properties ?s2 = Return x s'"
    using assms(1) by (simp add: u_add_new_group_def Let_def)
  moreover have "keys_ok ?s2"
    using assms(2) by (auto simp: keys_ok_def groups_def list_all_iff dom_update less_Suc_eq)
  ultimately show ?thesis using recalculate_keys by blast
qed

lemma rearrange_fields:
  assumes "u_rearrange_matrix_and_mappings d1 d2 s = Return x s'"
  shows "self_map_g_n s' = d1 \<and> self_k s' = self_k s"
proof -
  from assms obtain s1 where rc: "u_recalculate_block_properties s1 = Return x s'"
    and f: "self_map_g_n s1 = d1" "self_k s1 = self_k s"
    by (auto simp: u_rearrange_matrix_and_mappings_def Let_def
        split: sum.splits if_splits prod.splits option.splits)
  from recalculate_fields[OF rc] have s': "s' = s1\<lparr>self_w := self_w s', self_P := self_P s'\<rparr>" .
  show ?thesis by (subst s', subst (2) s') (simp add: f)
qed

lemma move_keys:
  assumes "u_move_node_to_new_group node s = Return x s'" and "keys_ok s"
  shows "keys_ok s'"
proof -
  from assms(1) obtain g members' members2 y s3 where
    re: "u_rearrange_matrix_and_mappings
          (AList.update (self_k s - 1) (set_add node members2)
             (AList.update g members' (self_map_g_n s)))
          (AList.update node (self_k s - 1) (self_map_n_g s))
          (s\<lparr>self_map_g_n := AList.update (self_k s - 1) (set_add node members2)
                                  (AList.update g members' (self_map_g_n s)),
             self_map_n_g := AList.update node (self_k s - 1) (self_map_n_g s)\<rparr>) = Return y s3"
    and rc: "u_recalculate_block_properties s3 = Return x s'"
    by (auto simp: u_move_node_to_new_group_def Let_def ebind_eq_Inr_iff
        split: sum.splits if_splits outcome.splits)
  from rearrange_fields[OF re] assms(2) have "keys_ok s3"
    by (auto simp: keys_ok_def groups_def list_all_iff dom_update)
  then show ?thesis using recalculate_keys[OF rc] by simp
qed

lemma seed_split_keys:
  "seed_split group_r members s = Return x s' \<Longrightarrow> keys_ok s \<Longrightarrow> keys_ok s'"
proof (induction members arbitrary: s)
  case Nil
  then show ?case by simp
next
  case (Cons node rest)
  from Cons.prems(1) consider "seed_split group_r rest s = Return x s'"
    | y s1 where "u_move_node_to_new_group node s = Return y s1" "seed_split group_r rest s1 = Return x s'"
    by (auto split: sum.splits if_splits outcome.splits)
  then show ?case
  proof cases
    case 1
    then show ?thesis using Cons.IH Cons.prems(2) by blast
  next
    case 2
    then show ?thesis using Cons.IH move_keys Cons.prems(2) by blast
  qed
qed

lemma dict_of_keys: "fst ` set (dict_of kvs) = fst ` set kvs"
proof -
  have "fst ` set (foldl (\<lambda>d (key, v). AList.update key v d) d0 kvs) = fst ` set d0 \<union> fst ` set kvs"
    for d0 :: "('a \<times> 'b) list"
  proof (induction kvs arbitrary: d0)
    case Nil
    then show ?case by simp
  next
    case (Cons kv kvs)
    obtain key v where kv: "kv = (key, v)" by (cases kv)
    have "fst ` set (foldl (\<lambda>d (key, v). AList.update key v d) (AList.update key v d0) kvs)
        = fst ` set (AList.update key v d0) \<union> fst ` set kvs"
      by (rule Cons.IH)
    also have "\<dots> = fst ` set d0 \<union> fst ` set (kv # kvs)"
      by (simp only: dom_update kv) auto
    finally show ?case by (simp add: kv)
  qed
  from this[of "[]"] show ?thesis by (simp add: dict_of_def)
qed

lemma assign_nodes_groups:
  assumes "assign_nodes s = Inr (map_n_g, map_g_n)"
  shows "set (groups s) \<subseteq> fst ` set map_g_n"
proof -
  have "(\<lambda>(m1, m2). set (groups s) \<subseteq> fst ` set m2) (map_n_g, map_g_n)"
  proof (rule efoldl_invariant[OF assms[unfolded assign_nodes_def]])
    show "case ([], dict_of (map (\<lambda>g. (g, [])) (groups s))) of
            (m1, m2) \<Rightarrow> set (groups s) \<subseteq> fst ` set m2"
      by (simp add: dict_of_keys image_image)
  next
    fix acc :: "(node, nat) dict \<times> (nat, node list) dict" and x acc'
    assume "case acc of (m1, m2) \<Rightarrow> set (groups s) \<subseteq> fst ` set m2"
      and "(case acc of (map_n_g, map_g_n) \<Rightarrow> \<lambda>node.
              ebind (min_by (rearrange_cost s node) (groups s)) (\<lambda>next_grp.
              ebind (getitem map_g_n next_grp) (\<lambda>members.
              ebind (getitem (self_map_n_g s) node) (\<lambda>old_grp.
                Inr (AList.update node next_grp map_n_g,
                     AList.update next_grp (set_add node members) map_g_n))))) x = Inr acc'"
    then show "case acc' of (m1, m2) \<Rightarrow> set (groups s) \<subseteq> fst ` set m2"
      by (auto simp: ebind_eq_Inr_iff dom_update split: prod.splits)
  qed
  then show ?thesis by simp
qed

lemma inner_iteration_Return:
  assumes "inner_iteration it s = Return stop s'"
  shows "\<exists>map_n_g map_g_n x s1 y.
           assign_nodes s = Inr (map_n_g, map_g_n) \<and>
           u_rearrange_matrix_and_mappings map_g_n map_n_g s = Return x s1 \<and>
           u_report_adj_matrix ''inner'' it s1 = Return y s'"
  using assms
  by (auto simp: inner_iteration_def split: sum.splits prod.splits outcome.splits)

lemma rearranged_keys:
  assumes "assign_nodes s = Inr (map_n_g, map_g_n)"
    and "u_rearrange_matrix_and_mappings map_g_n map_n_g s = Return x s1"
  shows "keys_ok s1"
  using assign_nodes_groups[OF assms(1)] rearrange_fields[OF assms(2)]
  by (auto simp: keys_ok_def groups_def list_all_iff)

lemma inner_iteration_keys:
  assumes "inner_iteration it s = Return stop s'"
  shows "keys_ok s'"
proof -
  from inner_iteration_Return[OF assms] obtain map_n_g map_g_n x s1 y where
    "assign_nodes s = Inr (map_n_g, map_g_n)"
    "u_rearrange_matrix_and_mappings map_g_n map_n_g s = Return x s1"
    "u_report_adj_matrix ''inner'' it s1 = Return y s'"
    by blast
  then show ?thesis using rearranged_keys report_keys by blast
qed

lemma inner_iteration_env:
  "\<exists>fs'. inner_iteration it (with_env l fs s) = omap_env l fs' (inner_iteration it s)"
proof (cases "assign_nodes s")
  case (Inl e)
  then show ?thesis
    by (intro exI[of _ fs]) (simp add: inner_iteration_def assign_nodes_env omap_env_simps)
next
  case (Inr maps)
  obtain map_n_g map_g_n where maps: "maps = (map_n_g, map_g_n)" by (cases maps)
  show ?thesis
  proof (cases "total_cost s")
    case (Inl e)
    then show ?thesis
      by (intro exI[of _ fs])
        (simp add: inner_iteration_def assign_nodes_env Inr maps total_cost_env omap_env_simps)
  next
    case cost: (Inr prev)
    show ?thesis
    proof (cases "u_rearrange_matrix_and_mappings map_g_n map_n_g s")
      case (Raise e s1)
      then show ?thesis
        by (intro exI[of _ fs])
          (simp add: inner_iteration_def assign_nodes_env Inr maps total_cost_env cost
            u_rearrange_env omap_env_simps)
    next
      case (Return x s1)
      have k: "keys_ok s1" using rearranged_keys Inr maps Return by blast
      from report_env[OF k, of "''inner''" it l fs] obtain fs' where
        rep: "u_report_adj_matrix ''inner'' it (with_env l fs s1)
                = omap_env l fs' (u_report_adj_matrix ''inner'' it s1)"
        by blast
      show ?thesis
      proof (intro exI[of _ "if (\<exists>xs. group_sizes s1 = Inr xs) then fs' else fs"])
        show "inner_iteration it (with_env l fs s) =
            omap_env l (if \<exists>xs. group_sizes s1 = Inr xs then fs' else fs) (inner_iteration it s)"
          by (cases "group_sizes s1"; cases "u_report_adj_matrix ''inner'' it s1")
            (simp_all add: inner_iteration_def assign_nodes_env Inr maps total_cost_env cost
              u_rearrange_env Return group_sizes_env rep omap_env_simps split: sum.splits)
      qed
    qed
  qed
qed

lemma inner_loop_env_all:
  assumes "u_inner_loop it s = Some r"
  shows "\<forall>fs. \<exists>fs'. u_inner_loop it (with_env l fs s) = Some (omap_env l fs' r)"
proof (rule u_inner_loop.raw_induct[where
      P = "\<lambda>it s r. \<forall>fs. \<exists>fs'. u_inner_loop it (with_env l fs s) = Some (omap_env l fs' r)",
      OF _ assms], goal_cases)
  case (1 loop it s r)
  show ?case
  proof
    fix fs
    obtain fs1 where it: "inner_iteration it (with_env l fs s) = omap_env l fs1 (inner_iteration it s)"
      using inner_iteration_env by blast
    show "\<exists>fs'. u_inner_loop it (with_env l fs s) = Some (omap_env l fs' r)"
    proof (cases "inner_iteration it s")
      case (Raise e s1)
      with 1(2) have "r = Raise e s1" by simp
      then show ?thesis
        by (subst u_inner_loop.simps) (auto simp: it Raise omap_env_simps)
    next
      case (Return stop s1)
      show ?thesis
      proof (cases stop)
        case True
        with 1(2) Return have "r = Return () s1" by simp
        then show ?thesis
          by (subst u_inner_loop.simps) (auto simp: it Return True omap_env_simps)
      next
        case False
        with 1(2) Return have "loop (it + 1) s1 = Some r" by simp
        from 1(1)[OF this] obtain fs' where
          "u_inner_loop (it + 1) (with_env l fs1 s1) = Some (omap_env l fs' r)" by blast
        then show ?thesis
          by (subst u_inner_loop.simps) (auto simp: it Return False omap_env_simps)
      qed
    qed
  qed
qed

lemma inner_loop_env:
  "u_inner_loop it s = Some r \<Longrightarrow>
   \<exists>fs'. u_inner_loop it (with_env l fs s) = Some (omap_env l fs' r)"
  using inner_loop_env_all by blast

lemma inner_loop_keys_all:
  assumes "u_inner_loop it s = Some r"
  shows "\<forall>x s'. r = Return x s' \<longrightarrow> keys_ok s'"
proof (rule u_inner_loop.raw_induct[where P = "\<lambda>it s r. \<forall>x s'. r = Return x s' \<longrightarrow> keys_ok s'",
      OF _ assms], goal_cases)
  case (1 loop it s r)
  then show ?case
    by (auto split: outcome.splits if_splits dest: inner_iteration_keys)
qed

lemma inner_loop_keys: "u_inner_loop it s = Some (Return x s') \<Longrightarrow> keys_ok s'"
  using inner_loop_keys_all by blast

lemma split_step_Return:
  assumes "split_step it s = Return c s'"
  shows "\<exists>x s1 group_r members y s2 z.
           u_add_new_group s = Return x s1 \<and>
           seed_split group_r members s1 = Return y s2 \<and>
           u_report_adj_matrix ''outer'' it s2 = Return z s'"
  using assms
  by (auto simp: split_step_def split: sum.splits outcome.splits)

lemma split_step_keys:
  assumes "split_step it s = Return c s'" and "keys_ok s"
  shows "keys_ok s'"
proof -
  from split_step_Return[OF assms(1)] obtain x s1 group_r members y s2 z where
    "u_add_new_group s = Return x s1" "seed_split group_r members s1 = Return y s2"
    "u_report_adj_matrix ''outer'' it s2 = Return z s'"
    by blast
  then show ?thesis using assms(2) add_new_group_keys seed_split_keys report_keys by blast
qed

lemma split_step_env:
  assumes "keys_ok s"
  shows "\<exists>fs'. split_step it (with_env l fs s) = omap_env l fs' (split_step it s)"
proof -
  note pre = split_step_def total_cost_env group_entropy_per_node_env groups_env
    u_add_new_group_env omap_env_simps
  show ?thesis
  proof (cases "total_cost s")
    case (Inl e)
    then show ?thesis by (intro exI[of _ fs]) (simp add: pre)
  next
    case cost: (Inr prev)
    show ?thesis
    proof (cases "max_by (group_entropy_per_node s) (groups s)")
      case (Inl e)
      then show ?thesis by (intro exI[of _ fs]) (simp add: pre cost)
    next
      case grp: (Inr group_r)
      show ?thesis
      proof (cases "u_add_new_group s")
        case (Raise e s1)
        then show ?thesis by (intro exI[of _ fs]) (simp add: pre cost grp)
      next
        case add: (Return x s1)
        have k1: "keys_ok s1" using add assms add_new_group_keys by blast
        show ?thesis
        proof (cases "getitem (self_map_g_n s1) group_r")
          case (Inl e)
          then show ?thesis by (intro exI[of _ fs]) (simp add: pre cost grp add fields_env)
        next
          case mem: (Inr members)
          show ?thesis
          proof (cases "seed_split group_r members s1")
            case (Raise e s2)
            then show ?thesis
              by (intro exI[of _ fs]) (simp add: pre cost grp add fields_env mem seed_split_env)
          next
            case seed: (Return y s2)
            have k2: "keys_ok s2" using seed k1 seed_split_keys by blast
            from report_env[OF k2, of "''outer''" it l fs] obtain fs' where
              rep: "u_report_adj_matrix ''outer'' it (with_env l fs s2)
                      = omap_env l fs' (u_report_adj_matrix ''outer'' it s2)"
              by blast
            show ?thesis
            proof (intro exI[of _ "if (\<exists>xs. group_sizes s2 = Inr xs) then fs' else fs"])
              show "split_step it (with_env l fs s) =
                  omap_env l (if \<exists>xs. group_sizes s2 = Inr xs then fs' else fs) (split_step it s)"
                by (cases "group_sizes s2"; cases "u_report_adj_matrix ''outer'' it s2")
                  (simp_all add: pre cost grp add fields_env mem seed_split_env seed
                    group_sizes_env rep)
            qed
          qed
        qed
      qed
    qed
  qed
qed

lemma outer_check_env:
  "outer_check c (with_env l fs s) = omap_env l fs (outer_check c s)"
  by (simp add: outer_check_def u_report_code_cost_env total_cost_env omap_env_simps
      split: sum.splits)

lemma outer_check_state: "outer_check c s = Return stop s' \<Longrightarrow> s' = s"
  by (auto simp: outer_check_def split: sum.splits)

lemma run_env_all:
  assumes "u_run it s = Some r"
  shows "keys_ok s \<longrightarrow> (\<forall>fs. \<exists>fs'. u_run it (with_env l fs s) = Some (omap_env l fs' r))"
proof (rule u_run.raw_induct[where
      P = "\<lambda>it s r. keys_ok s \<longrightarrow> (\<forall>fs. \<exists>fs'. u_run it (with_env l fs s) = Some (omap_env l fs' r))",
      OF _ assms], goal_cases)
  case (1 run it s r)
  show ?case
  proof (intro impI allI)
    fix fs
    assume k: "keys_ok s"
    obtain fs1 where sp: "split_step it (with_env l fs s) = omap_env l fs1 (split_step it s)"
      using split_step_env[OF k] by blast
    show "\<exists>fs'. u_run it (with_env l fs s) = Some (omap_env l fs' r)"
    proof (cases "split_step it s")
      case (Raise e s1)
      with 1(2) have "r = Raise e s1" by simp
      then show ?thesis by (subst u_run.simps) (auto simp: sp Raise omap_env_simps)
    next
      case split: (Return prev s1)
      from 1(2) split obtain r1 where in1: "u_inner_loop 0 s1 = Some r1"
        by (auto simp: bind_eq_Some_conv)
      from inner_loop_env[OF in1, of l fs1] obtain fs2 where
        in2: "u_inner_loop 0 (with_env l fs1 s1) = Some (omap_env l fs2 r1)" by blast
      show ?thesis
      proof (cases r1)
        case (Raise e s2)
        with 1(2) split in1 have "r = Raise e s2" by simp
        then show ?thesis
          by (subst u_run.simps) (auto simp: sp split in2 Raise omap_env_simps)
      next
        case inner: (Return x s2)
        have k2: "keys_ok s2" using in1 inner inner_loop_keys by blast
        note oc = outer_check_env[of prev l fs2 s2]
        show ?thesis
        proof (cases "outer_check prev s2")
          case (Raise e s3)
          with 1(2) split in1 inner have "r = Raise e s3" by simp
          then show ?thesis
            by (subst u_run.simps) (auto simp: sp split in2 inner oc Raise omap_env_simps)
        next
          case check: (Return stop s3)
          have s3: "s3 = s2" using check outer_check_state by blast
          show ?thesis
          proof (cases stop)
            case True
            with 1(2) split in1 inner check have "r = Return () s3" by simp
            then show ?thesis
              by (subst u_run.simps) (auto simp: sp split in2 inner oc check True omap_env_simps)
          next
            case False
            with 1(2) split in1 inner check have "run (it + 1) s3 = Some r" by simp
            from 1(1)[OF this] k2 s3 obtain fs' where
              "u_run (it + 1) (with_env l fs2 s3) = Some (omap_env l fs' r)" by blast
            then show ?thesis
              by (subst u_run.simps) (auto simp: sp split in2 inner oc check False omap_env_simps)
          qed
        qed
      qed
    qed
  qed
qed

lemma observable_env: "observable (omap_env l fs r) = observable r"
  by (cases r) (simp_all add: observable_def omap_env_simps clusters_def fields_env total_cost_env)

lemma run_observable:
  assumes "keys_ok s"
  shows "map_option observable (u_run it (with_env l fs s)) = map_option observable (u_run it s)"
proof (cases "u_run it s")
  case (Some r)
  from run_env_all[OF Some, of l] assms obtain fs' where
    "u_run it (with_env l fs s) = Some (omap_env l fs' r)" by blast
  then show ?thesis by (simp add: Some observable_env)
next
  case None
  have "u_run it (with_env l fs s) = None"
  proof (rule ccontr)
    assume "u_run it (with_env l fs s) \<noteq> None"
    then obtain r where r: "u_run it (with_env l fs s) = Some r" by blast
    have "keys_ok (with_env l fs s)" using assms by (simp add: keys_ok_env)
    from run_env_all[OF r, of "log_level s"] this obtain fs' where
      "u_run it (with_env (log_level s) (saved_figs s) (with_env l fs s))
         = Some (omap_env (log_level s) fs' r)"
      by blast
    then show False using None by (simp add: with_env_twice with_env_same)
  qed
  then show ?thesis by (simp add: None)
qed

lemma init_fields_env: "init_fields g env figs = with_env env figs (init_fields g 0 [])"
  by (simp add: init_fields_def with_env_def)

lemma keys_ok_init: "keys_ok (init_fields g env figs)"
  by (simp add: keys_ok_def groups_def init_fields_def)

lemma Autopart_observable:
  "map_option observable (Autopart g level env figs)
     = (case u_recalculate_block_properties (init_fields g 0 []) of
          Raise e s \<Rightarrow> Some (Inl e)
        | Return x s \<Rightarrow> map_option observable (u_run 0 s))"
proof (cases "u_recalculate_block_properties (init_fields g 0 [])")
  case (Raise e s)
  then show ?thesis
    by (simp add: Autopart_def init_fields_env[of g env figs] u_recalculate_env omap_env_simps
        observable_def)
next
  case (Return x s)
  have k: "keys_ok s" using recalculate_keys[OF Return] keys_ok_init by simp
  have "(with_env env figs s)\<lparr>log_level := level\<rparr> = with_env level figs s"
    by (simp add: with_env_def)
  then show ?thesis
    by (simp add: Autopart_def init_fields_env[of g env figs] u_recalculate_env omap_env_simps
        Return run_observable[OF k])
qed

section \<open>The verbosity setting\<close>

text \<open>
  Claim C10. Two runs on the same graph that differ in the logging level (and in the level
  and the saved figures found when the constructor is entered) end the same way: both do
  not return, or both raise the same exception, or both return the same partition and the
  same total cost.
\<close>

theorem verbosity_no_effect:
  "map_option observable (Autopart g level1 env1 figs1)
     = map_option observable (Autopart g level2 env2 figs2)"
  by (simp only: Autopart_observable)

end
